theory Spec2Isabelle
  imports Main "HOL-Library.Word"
begin

unbundle bit_operations_syntax

section \<open>GC9A01 round display controller: data model\<close>

text \<open>
  The model follows \<^verbatim>\<open>src/chips/gc9a01.c\<close>. The C integer types are words of the
  same width: \<^verbatim>\<open>uint8_t\<close>, \<^verbatim>\<open>uint16_t\<close> and \<^verbatim>\<open>uint32_t\<close> wrap around as the C
  types do. The C type \<^verbatim>\<open>int\<close> (used only by the circular mask) is modelled by
  \<open>int\<close> with the 32-bit two's complement result written out after every
  multiplication and addition (\<open>wrap_int\<close>).
\<close>

type_synonym u8 = "8 word"
type_synonym u16 = "16 word"
type_synonym u32 = "32 word"

text \<open>\<^verbatim>\<open>gc9a01_mode_t\<close>.\<close>

datatype gc9a01_mode = GC9A01_MODE_COMMAND | GC9A01_MODE_DATA

text \<open>Pin levels of the host API: \<^verbatim>\<open>LOW\<close> is 0, every other value is high.\<close>

datatype level = LOW | HIGH

text \<open>
  The pins the chip registers in \<^verbatim>\<open>chip_init\<close>. The host hands out one handle per
  pin name, so the handles stored in \<^verbatim>\<open>cs_pin\<close>, \<^verbatim>\<open>dc_pin\<close> and \<^verbatim>\<open>rst_pin\<close> are
  pairwise different; the comparison \<^verbatim>\<open>pin == state->cs_pin\<close> is the test \<open>pin = CS\<close>.
\<close>

datatype pin = CS | DC | RST | SCL | SDA

text \<open>
  \<^verbatim>\<open>gc9a01_state_t\<close>, without the pin and SPI handles.
  \<^item> \<open>framebuffer\<close> is the host buffer behind the \<^verbatim>\<open>buffer_t\<close> handle, as a store from
    byte offsets to the 32-bit value last written there. Every write of the chip is
    four bytes long at an offset that is a multiple of four, so writes never overlap
    partially. The store is total: it records every write the chip requests, also
    one whose offset lies beyond \<open>width * height * 4\<close> bytes.
  \<^item> \<open>command_args\<close> is the array \<^verbatim>\<open>command_args[16]\<close>, indexed by position. From a
    state in which \<open>received_args < expected_args \<le> 4\<close> holds while a command is
    being received, only the indices 0 to 3 are ever written; every state reached
    from the initial one is such a state (\<open>parser_ok\<close>, section Parser invariant).
\<close>

record gc9a01_state =
  framebuffer :: "u32 \<Rightarrow> u32"
  width :: u32
  height :: u32
  mode :: gc9a01_mode
  is_receiving_command :: bool
  current_command :: u8
  expected_args :: u8
  received_args :: u8
  command_args :: "nat \<Rightarrow> u8"
  pending_data :: u8
  pending_data_valid :: bool
  col_start :: u16
  col_end :: u16
  row_start :: u16
  row_end :: u16
  current_col :: u16
  current_row :: u16
  ram_write :: bool
  display_on :: bool
  inverted :: bool

section \<open>Command codes and argument counts\<close>

abbreviation GC9A01_SWRESET :: u8 where "GC9A01_SWRESET \<equiv> 0x01"
abbreviation GC9A01_SLPOUT :: u8 where "GC9A01_SLPOUT \<equiv> 0x11"
abbreviation GC9A01_DISPON :: u8 where "GC9A01_DISPON \<equiv> 0x29"
abbreviation GC9A01_DISPOFF :: u8 where "GC9A01_DISPOFF \<equiv> 0x28"
abbreviation GC9A01_CASET :: u8 where "GC9A01_CASET \<equiv> 0x2A"
abbreviation GC9A01_RASET :: u8 where "GC9A01_RASET \<equiv> 0x2B"
abbreviation GC9A01_RAMWR :: u8 where "GC9A01_RAMWR \<equiv> 0x2C"
abbreviation GC9A01_MADCTL :: u8 where "GC9A01_MADCTL \<equiv> 0x36"
abbreviation GC9A01_COLMOD :: u8 where "GC9A01_COLMOD \<equiv> 0x3A"
abbreviation GC9A01_INVOFF :: u8 where "GC9A01_INVOFF \<equiv> 0x20"
abbreviation GC9A01_INVON :: u8 where "GC9A01_INVON \<equiv> 0x21"

text \<open>\<^verbatim>\<open>get_expected_arg_count\<close>: the \<^verbatim>\<open>switch\<close>, case by case.\<close>

definition get_expected_arg_count :: "u8 \<Rightarrow> u8" where
  "get_expected_arg_count command =
     (if command = GC9A01_SWRESET \<or> command = GC9A01_SLPOUT \<or> command = GC9A01_DISPON
         \<or> command = GC9A01_DISPOFF \<or> command = GC9A01_RAMWR \<or> command = GC9A01_INVOFF
         \<or> command = GC9A01_INVON then 0
      else if command = GC9A01_CASET \<or> command = GC9A01_RASET then 4
      else if command = GC9A01_MADCTL then 1
      else if command = GC9A01_COLMOD then 1
      else 0)"

section \<open>Colour conversion\<close>

text \<open>
  \<^verbatim>\<open>rgb565_to_rgba\<close>. The operand \<^verbatim>\<open>value\<close> is promoted to 32 bits before the shifts;
  no shifted field reaches bit 31.
\<close>

definition rgb565_to_rgba :: "u16 \<Rightarrow> u32" where
  "rgb565_to_rgba v =
     0xff000000 OR push_bit 19 (ucast v AND 0x001F) OR push_bit 5 (ucast v AND 0x07E0)
       OR drop_bit 8 (ucast v AND 0xF800)"

text \<open>
  The inversion block of \<^verbatim>\<open>process_pixel\<close>: each channel is cut to a \<^verbatim>\<open>uint8_t\<close>,
  subtracted from 255 and shifted back.
\<close>

definition invert_color :: "u32 \<Rightarrow> u32" where
  "invert_color color =
     (let r = (ucast (255 - (drop_bit 16 color AND 0xFF)) :: u8);
          g = (ucast (255 - (drop_bit 8 color AND 0xFF)) :: u8);
          b = (ucast (255 - (color AND 0xFF)) :: u8)
      in 0xff000000 OR push_bit 16 (ucast r) OR push_bit 8 (ucast g) OR ucast b)"

section \<open>The surface\<close>

text \<open>
  Modelled from the spec: \<^verbatim>\<open>buffer_write\<close> belongs to the host API
  (\<^verbatim>\<open>wokwi-api.h\<close>), which is not part of the sources. The spec describes the
  surface as a collaborator that is only written, one colour per location; the
  model stores the four-byte value at the byte offset it is given.
\<close>

definition buffer_write :: "(u32 \<Rightarrow> u32) \<Rightarrow> u32 \<Rightarrow> u32 \<Rightarrow> (u32 \<Rightarrow> u32)" where
  "buffer_write fb offset data = fb(offset := data)"

text \<open>
  The two nested \<^verbatim>\<open>for\<close> loops that fill the surface with black, in
  \<^verbatim>\<open>process_command\<close> (software reset) and in \<^verbatim>\<open>gc9a01_pin_change\<close> (reset line).
  \<open>fill_row\<close> is the inner loop from column \<open>x\<close> on, \<open>fill_rows\<close> the outer loop
  from row \<open>y\<close> on. The offset is computed in 32 bits.
\<close>

function fill_row :: "u32 \<Rightarrow> u32 \<Rightarrow> u32 \<Rightarrow> (u32 \<Rightarrow> u32) \<Rightarrow> (u32 \<Rightarrow> u32)" where
  "fill_row w y x fb =
     (if x < w then fill_row w y (x + 1) (buffer_write fb ((y * w + x) * 4) 0xff000000)
      else fb)"
  by pat_completeness auto
termination
proof (relation "measure (\<lambda>(w, y, x, fb). unat w - unat x)")
  show "wf (measure (\<lambda>(w :: u32, y :: u32, x :: u32, fb :: u32 \<Rightarrow> u32). unat w - unat x))"
    by simp
next
  fix w y x :: u32 and fb :: "u32 \<Rightarrow> u32"
  assume lt: "x < w"
  then have less: "unat x < unat w"
    by (simp add: word_less_nat_alt)
  moreover have "unat w < 2 ^ LENGTH(32)"
    by (rule unsigned_less)
  ultimately have "unat x + unat (1 :: u32) < 2 ^ LENGTH(32)"
    by simp
  then have "unat (x + 1) = unat x + unat (1 :: u32)"
    by (simp only: unat_add_lem)
  with less show "((w, y, x + 1, buffer_write fb ((y * w + x) * 4) 0xff000000), (w, y, x, fb))
      \<in> measure (\<lambda>(w, y, x, fb). unat w - unat x)"
    by simp
qed

function fill_rows :: "u32 \<Rightarrow> u32 \<Rightarrow> u32 \<Rightarrow> (u32 \<Rightarrow> u32) \<Rightarrow> (u32 \<Rightarrow> u32)" where
  "fill_rows w h y fb =
     (if y < h then fill_rows w h (y + 1) (fill_row w y 0 fb) else fb)"
  by pat_completeness auto
termination
proof (relation "measure (\<lambda>(w, h, y, fb). unat h - unat y)")
  show "wf (measure (\<lambda>(w :: u32, h :: u32, y :: u32, fb :: u32 \<Rightarrow> u32). unat h - unat y))"
    by simp
next
  fix w h y :: u32 and fb :: "u32 \<Rightarrow> u32"
  assume lt: "y < h"
  then have less: "unat y < unat h"
    by (simp add: word_less_nat_alt)
  moreover have "unat h < 2 ^ LENGTH(32)"
    by (rule unsigned_less)
  ultimately have "unat y + unat (1 :: u32) < 2 ^ LENGTH(32)"
    by simp
  then have "unat (y + 1) = unat y + unat (1 :: u32)"
    by (simp only: unat_add_lem)
  with less show "((w, h, y + 1, fill_row w y 0 fb), (w, h, y, fb))
      \<in> measure (\<lambda>(w, h, y, fb). unat h - unat y)"
    by simp
qed

text \<open>
  The reset block, which the source has twice with the same text: fill the surface,
  then clear the flags and set the window to the surface and the cursor to its
  origin. \<^verbatim>\<open>width - 1\<close> is computed in 32 bits and cut to the 16-bit field.
\<close>

definition reset_display :: "gc9a01_state \<Rightarrow> gc9a01_state" where
  "reset_display st =
     st\<lparr>framebuffer := fill_rows (width st) (height st) 0 (framebuffer st),
        display_on := False,
        inverted := False,
        ram_write := False,
        col_start := 0,
        col_end := ucast (width st - 1),
        row_start := 0,
        row_end := ucast (height st - 1),
        current_col := 0,
        current_row := 0\<rparr>"

section \<open>Command interpreter\<close>

text \<open>
  \<^verbatim>\<open>process_command\<close>. \<open>args\<close> is the argument array (read only at the indices 0
  to 3, and only when \<open>len = 4\<close>), \<open>len\<close> the count passed by the caller.
\<close>

definition be16 :: "u8 \<Rightarrow> u8 \<Rightarrow> u16" where
  "be16 hi lo = push_bit 8 (ucast hi) OR ucast lo"

definition process_command :: "gc9a01_state \<Rightarrow> u8 \<Rightarrow> (nat \<Rightarrow> u8) \<Rightarrow> u8 \<Rightarrow> gc9a01_state" where
  "process_command st command args len =
     (if command = GC9A01_SWRESET then reset_display st
      else if command = GC9A01_SLPOUT then st
      else if command = GC9A01_DISPON then st\<lparr>display_on := True\<rparr>
      else if command = GC9A01_DISPOFF then st\<lparr>display_on := False\<rparr>
      else if command = GC9A01_CASET then
        (if len = 4 then
           st\<lparr>col_start := be16 (args 0) (args 1),
              col_end := be16 (args 2) (args 3),
              current_col := be16 (args 0) (args 1)\<rparr>
         else st)
      else if command = GC9A01_RASET then
        (if len = 4 then
           st\<lparr>row_start := be16 (args 0) (args 1),
              row_end := be16 (args 2) (args 3),
              current_row := be16 (args 0) (args 1)\<rparr>
         else st)
      else if command = GC9A01_RAMWR then st\<lparr>ram_write := True, pending_data_valid := False\<rparr>
      else if command = GC9A01_MADCTL then st
      else if command = GC9A01_COLMOD then st
      else if command = GC9A01_INVOFF then st\<lparr>inverted := False\<rparr>
      else if command = GC9A01_INVON then st\<lparr>inverted := True\<rparr>
      else st)"

section \<open>Pixel pipeline\<close>

text \<open>
  32-bit two's complement result of an \<^verbatim>\<open>int\<close> operation. C leaves signed overflow
  undefined; the model takes the wrapped value, and every theorem below that
  depends on the mask is stated where no operation overflows.
\<close>

definition wrap_int :: "int \<Rightarrow> int" where
  "wrap_int i = signed_take_bit 31 i"

text \<open>The colour computed before the mask: conversion, then inversion when set.\<close>

definition pixel_color :: "gc9a01_state \<Rightarrow> u16 \<Rightarrow> u32" where
  "pixel_color st pixel_val =
     (if inverted st then invert_color (rgb565_to_rgba pixel_val)
      else rgb565_to_rgba pixel_val)"

text \<open>The window test; \<open>in_window\<close> is the negation of the condition that returns early.\<close>

definition in_window :: "gc9a01_state \<Rightarrow> bool" where
  "in_window st \<longleftrightarrow>
     \<not> (current_col st < col_start st \<or> current_col st > col_end st \<or>
        current_row st < row_start st \<or> current_row st > row_end st)"

text \<open>
  The mask test \<^verbatim>\<open>(dx * dx + dy * dy) > (center * center)\<close>, with
  \<^verbatim>\<open>center = width / 2\<close> converted to \<^verbatim>\<open>int\<close> (it is below \<open>2 ^ 31\<close>).
\<close>

definition outside_circle :: "gc9a01_state \<Rightarrow> bool" where
  "outside_circle st =
     (let center = uint (width st div 2);
          dx = wrap_int (uint (current_col st) - center);
          dy = wrap_int (uint (current_row st) - center)
      in wrap_int (wrap_int (dx * dx) + wrap_int (dy * dy)) > wrap_int (center * center))"

text \<open>The byte offset of the cursor, in 32 bits as the C expression.\<close>

definition pixel_offset :: "gc9a01_state \<Rightarrow> u32" where
  "pixel_offset st = (ucast (current_row st) * width st + ucast (current_col st)) * 4"

text \<open>The cursor advance at the end of \<^verbatim>\<open>process_pixel\<close>; the increments are 16-bit.\<close>

definition advance_cursor :: "gc9a01_state \<Rightarrow> gc9a01_state" where
  "advance_cursor st =
     (let st1 = st\<lparr>current_col := current_col st + 1\<rparr>
      in if current_col st1 > col_end st1 then
           (let st2 = st1\<lparr>current_col := col_start st1, current_row := current_row st1 + 1\<rparr>
            in if current_row st2 > row_end st2 then st2\<lparr>current_row := row_start st2\<rparr>
               else st2)
         else st1)"

text \<open>\<^verbatim>\<open>process_pixel\<close>.\<close>

definition process_pixel :: "gc9a01_state \<Rightarrow> u16 \<Rightarrow> gc9a01_state" where
  "process_pixel st pixel_val =
     (let color = pixel_color st pixel_val
      in if \<not> in_window st then st
         else
           (let color' = (if outside_circle st then 0xff000000 else color)
            in advance_cursor
                 (st\<lparr>framebuffer := buffer_write (framebuffer st) (pixel_offset st) color'\<rparr>)))"

section \<open>Stream parser\<close>

text \<open>The body of the \<^verbatim>\<open>for\<close> loop of \<^verbatim>\<open>gc9a01_spi_done\<close>, for one byte \<open>b\<close>.\<close>

definition spi_byte :: "gc9a01_state \<Rightarrow> u8 \<Rightarrow> gc9a01_state" where
  "spi_byte st b =
     (if mode st = GC9A01_MODE_COMMAND then
        (if \<not> is_receiving_command st then
           (let st1 = st\<lparr>current_command := b,
                         is_receiving_command := True,
                         received_args := 0,
                         expected_args := get_expected_arg_count b\<rparr>
            in if expected_args st1 = 0 then
                 (process_command st1 (current_command st1) (\<lambda>_. 0) 0)
                   \<lparr>is_receiving_command := False\<rparr>
               else st1)
         else
           (let st1 = st\<lparr>command_args := (command_args st)(unat (received_args st) := b),
                         received_args := received_args st + 1\<rparr>
            in if received_args st1 \<ge> expected_args st1 then
                 (process_command st1 (current_command st1) (command_args st1) (expected_args st1))
                   \<lparr>is_receiving_command := False\<rparr>
               else st1))
      else
        (if ram_write st then
           (if pending_data_valid st then
              (let pixel_val = be16 (pending_data st) b
               in process_pixel (st\<lparr>pending_data_valid := False\<rparr>) pixel_val)
            else st\<lparr>pending_data := b, pending_data_valid := True\<rparr>)
         else st))"

text \<open>The loop over the buffer, first byte first.\<close>

fun spi_bytes :: "gc9a01_state \<Rightarrow> u8 list \<Rightarrow> gc9a01_state" where
  "spi_bytes st [] = st"
| "spi_bytes st (b # bs) = spi_bytes (spi_byte st b) bs"

text \<open>
  The chip together with the transport: the second component is whether the SPI
  transport is armed, set by \<^verbatim>\<open>spi_start\<close> and cleared by \<^verbatim>\<open>spi_stop\<close>.
\<close>

type_synonym chip = "gc9a01_state \<times> bool"

text \<open>
  \<^verbatim>\<open>gc9a01_spi_done\<close>. The buffer and its count are the list \<open>buffer\<close>; \<open>cs\<close> is the
  level \<^verbatim>\<open>pin_read(state->cs_pin)\<close> returns during the call. A delivery of no
  bytes returns at once, before the transport is armed again.
\<close>

definition gc9a01_spi_done :: "level \<Rightarrow> chip \<Rightarrow> u8 list \<Rightarrow> chip" where
  "gc9a01_spi_done cs c buffer =
     (if length buffer = 0 then c
      else (spi_bytes (fst c) buffer, if cs = LOW then True else snd c))"

section \<open>Control lines\<close>

text \<open>
  \<^verbatim>\<open>gc9a01_pin_change\<close>: three \<^verbatim>\<open>if\<close> statements in sequence. \<open>cs\<close> is the level
  \<^verbatim>\<open>pin_read(state->cs_pin)\<close> returns during the call.
\<close>

definition gc9a01_pin_change :: "level \<Rightarrow> chip \<Rightarrow> pin \<Rightarrow> level \<Rightarrow> chip" where
  "gc9a01_pin_change cs c p v =
     (let c1 =
            (if p = CS then
               (if v = LOW then
                  ((fst c)\<lparr>is_receiving_command := False, pending_data_valid := False\<rparr>, True)
                else
                  ((fst c)\<lparr>ram_write := False, is_receiving_command := False,
                           pending_data_valid := False\<rparr>, False))
             else c);
          c2 =
            (if p = DC then
               ((fst c1)\<lparr>mode := (if v = LOW then GC9A01_MODE_COMMAND else GC9A01_MODE_DATA)\<rparr>,
                if cs = LOW then True else False)
             else c1)
      in if p = RST \<and> v = LOW then (reset_display (fst c2), False) else c2)"

section \<open>Events\<close>

text \<open>Splitting a byte sequence into chunks delivered by successive calls.\<close>

fun deliver_chunks :: "level \<Rightarrow> chip \<Rightarrow> u8 list list \<Rightarrow> chip" where
  "deliver_chunks cs c [] = c"
| "deliver_chunks cs c (chunk # chunks) = deliver_chunks cs (gc9a01_spi_done cs c chunk) chunks"

text \<open>
  The two callbacks the host invokes, as events: a delivery of bytes and a change
  of a pin. Each carries the level of the select pin the callback reads.
  \<open>run_events\<close> applies a sequence of events in order.
\<close>

datatype event = SpiDone level "u8 list" | PinChange level pin level

fun apply_event :: "chip \<Rightarrow> event \<Rightarrow> chip" where
  "apply_event c (SpiDone cs buffer) = gc9a01_spi_done cs c buffer"
| "apply_event c (PinChange cs p v) = gc9a01_pin_change cs c p v"

fun run_events :: "chip \<Rightarrow> event list \<Rightarrow> chip" where
  "run_events c [] = c"
| "run_events c (e # es) = run_events (apply_event c e) es"

text \<open>Writing a list of samples, one call of \<open>process_pixel\<close> each.\<close>

fun write_samples :: "gc9a01_state \<Rightarrow> u16 list \<Rightarrow> gc9a01_state" where
  "write_samples st [] = st"
| "write_samples st (S # Ss) = write_samples (process_pixel st S) Ss"

section \<open>Notions used in the statements\<close>

text \<open>
  The parser invariant: while a command is being received, fewer arguments have
  arrived than it expects, and it expects at most four. It holds initially and is
  kept by every event, so the index written in \<open>command_args\<close> stays below 4.
\<close>

definition parser_ok :: "gc9a01_state \<Rightarrow> bool" where
  "parser_ok st \<longleftrightarrow>
     (is_receiving_command st \<longrightarrow>
        received_args st < expected_args st \<and> expected_args st \<le> 4)"

text \<open>
  The size of the address window and the position of the cursor in it, counted in
  raster order from the window's origin.
\<close>

definition window_cols :: "gc9a01_state \<Rightarrow> nat" where
  "window_cols st = unat (col_end st) - unat (col_start st) + 1"

definition window_rows :: "gc9a01_state \<Rightarrow> nat" where
  "window_rows st = unat (row_end st) - unat (row_start st) + 1"

definition cursor_index :: "gc9a01_state \<Rightarrow> nat" where
  "cursor_index st =
     (unat (current_row st) - unat (row_start st)) * window_cols st
       + (unat (current_col st) - unat (col_start st))"

definition same_window :: "gc9a01_state \<Rightarrow> gc9a01_state \<Rightarrow> bool" where
  "same_window st st' \<longleftrightarrow>
     col_start st' = col_start st \<and> col_end st' = col_end st \<and>
     row_start st' = row_start st \<and> row_end st' = row_end st"

text \<open>
  Two states are \<open>live_equal\<close> when they agree on everything the code can still
  read. They agree on the surface, the dimensions, the mode, the window, the
  cursor and the flags (\<open>core_equal\<close>); on the command being assembled and the
  arguments received so far, when one is in progress (\<open>command_equal\<close>); and on the
  pending byte, when a memory write is active (\<open>pending_equal\<close>). What they may
  differ in is overwritten before it is read: the opcode and counts of a finished
  command, argument slots not yet filled, and the pending byte while \<open>ram_write\<close>
  is false. \<open>chip_equal\<close> adds the state of the transport.
\<close>

definition core_equal :: "gc9a01_state \<Rightarrow> gc9a01_state \<Rightarrow> bool" where
  "core_equal s t \<longleftrightarrow>
     framebuffer s = framebuffer t \<and> width s = width t \<and> height s = height t \<and>
     mode s = mode t \<and> is_receiving_command s = is_receiving_command t \<and>
     col_start s = col_start t \<and> col_end s = col_end t \<and>
     row_start s = row_start t \<and> row_end s = row_end t \<and>
     current_col s = current_col t \<and> current_row s = current_row t \<and>
     ram_write s = ram_write t \<and> display_on s = display_on t \<and> inverted s = inverted t"

definition command_equal :: "gc9a01_state \<Rightarrow> gc9a01_state \<Rightarrow> bool" where
  "command_equal s t \<longleftrightarrow>
     (is_receiving_command s \<longrightarrow>
        current_command s = current_command t \<and> expected_args s = expected_args t \<and>
        received_args s = received_args t \<and>
        (\<forall>i < unat (received_args s). command_args s i = command_args t i))"

definition pending_equal :: "gc9a01_state \<Rightarrow> gc9a01_state \<Rightarrow> bool" where
  "pending_equal s t \<longleftrightarrow>
     (ram_write s \<longrightarrow>
        pending_data_valid s = pending_data_valid t \<and>
        (pending_data_valid s \<longrightarrow> pending_data s = pending_data t))"

definition live_equal :: "gc9a01_state \<Rightarrow> gc9a01_state \<Rightarrow> bool" where
  "live_equal s t \<longleftrightarrow> core_equal s t \<and> command_equal s t \<and> pending_equal s t"

definition chip_equal :: "chip \<Rightarrow> chip \<Rightarrow> bool" where
  "chip_equal c d \<longleftrightarrow> live_equal (fst c) (fst d) \<and> snd c = snd d"

text \<open>
  The state with every trace of a command or sample in assembly removed, and the
  memory write ended, as after a deactivation of the select line.
\<close>

definition forget_assembly :: "gc9a01_state \<Rightarrow> gc9a01_state" where
  "forget_assembly st =
     st\<lparr>ram_write := False, is_receiving_command := False, pending_data_valid := False,
        current_command := 0, expected_args := 0, received_args := 0,
        command_args := (\<lambda>_. 0), pending_data := 0\<rparr>"

section \<open>Example states\<close>

text \<open>
  \<open>idle_state\<close> is the state \<^verbatim>\<open>chip_init\<close> leaves on a 240 by 240 surface whose
  store is black everywhere: the fields zeroed by \<^verbatim>\<open>calloc\<close>, the window set to the
  surface. The other states are \<open>idle_state\<close> with some fields changed:
  \<^item> \<open>painted_state\<close>: in the middle of a memory write, with a small window, the
    flags set and a surface of another colour;
  \<^item> \<open>center_plain\<close> and \<open>center_state\<close>: the cursor at the centre (120, 120), without
    and with inversion;
  \<^item> \<open>stray_cursor_state\<close>: the cursor at column 300, outside the window;
  \<^item> \<open>below_surface_state\<close>: window and cursor at column 120 of row 240, the first
    row below the surface.
\<close>

definition idle_state :: gc9a01_state where
  "idle_state =
     \<lparr>framebuffer = (\<lambda>_. 0xff000000), width = 240, height = 240,
      mode = GC9A01_MODE_COMMAND, is_receiving_command = False, current_command = 0,
      expected_args = 0, received_args = 0, command_args = (\<lambda>_. 0), pending_data = 0,
      pending_data_valid = False, col_start = 0, col_end = 239, row_start = 0,
      row_end = 239, current_col = 0, current_row = 0, ram_write = False,
      display_on = False, inverted = False\<rparr>"

definition painted_state :: gc9a01_state where
  "painted_state =
     idle_state\<lparr>framebuffer := (\<lambda>_. 0xff112233), col_start := 10, col_end := 20,
       row_start := 30, row_end := 40, current_col := 15, current_row := 35,
       ram_write := True, display_on := True, inverted := True\<rparr>"

definition center_plain :: gc9a01_state where
  "center_plain = idle_state\<lparr>current_col := 120, current_row := 120, ram_write := True\<rparr>"

definition center_state :: gc9a01_state where
  "center_state = idle_state\<lparr>current_col := 120, current_row := 120, ram_write := True,
     inverted := True\<rparr>"

definition stray_cursor_state :: gc9a01_state where
  "stray_cursor_state = idle_state\<lparr>current_col := 300, ram_write := True\<rparr>"

definition below_surface_state :: gc9a01_state where
  "below_surface_state = idle_state\<lparr>col_start := 120, col_end := 120, row_start := 240,
     row_end := 240, current_col := 120, current_row := 240, ram_write := True\<rparr>"

text \<open>
  Runs from \<open>idle_state\<close> with the transport not yet armed. Each starts with the
  select line going low, in command mode:
  \<^item> \<open>below_surface_run\<close>: column window 120 to 120, row window 240 to 240, memory
    write, then data mode and the high byte of a sample;
  \<^item> \<open>edge_window_armed\<close>: column window \<open>0xFFFF\<close> to \<open>0xFFFF\<close>, row window 0 to 1,
    memory write, then data mode; \<open>edge_window_run\<close> adds one sample;
  \<^item> \<open>partial_caset_chip\<close>: the column-address opcode and two of its four arguments;
  \<^item> \<open>half_sample_chip\<close>: memory write, data mode, and the high byte of a sample.
\<close>

definition below_surface_run :: chip where
  "below_surface_run =
     run_events (idle_state, False)
       [PinChange LOW CS LOW,
        SpiDone LOW [0x2A, 0x00, 0x78, 0x00, 0x78, 0x2B, 0x00, 0xF0, 0x00, 0xF0, 0x2C],
        PinChange LOW DC HIGH, SpiDone LOW [0xFF]]"

definition edge_window_armed :: chip where
  "edge_window_armed =
     run_events (idle_state, False)
       [PinChange LOW CS LOW,
        SpiDone LOW [0x2A, 0xFF, 0xFF, 0xFF, 0xFF, 0x2B, 0x00, 0x00, 0x00, 0x01, 0x2C],
        PinChange LOW DC HIGH]"

definition edge_window_run :: chip where
  "edge_window_run = run_events edge_window_armed [SpiDone LOW [0x12, 0x34]]"

definition partial_caset_chip :: chip where
  "partial_caset_chip =
     run_events (idle_state, False)
       [PinChange LOW CS LOW, SpiDone LOW [0x2A, 0x00, 0x0A]]"

definition half_sample_chip :: chip where
  "half_sample_chip =
     run_events (idle_state, False)
       [PinChange LOW CS LOW, SpiDone LOW [0x2C], PinChange LOW DC HIGH, SpiDone LOW [0x12]]"

declare fill_row.simps [simp del]
declare fill_rows.simps [simp del]

text \<open>The unfoldings that evaluate a run of events on a concrete state.\<close>

lemmas run_simps =
  idle_state_def gc9a01_spi_done_def gc9a01_pin_change_def spi_byte_def
  get_expected_arg_count_def process_command_def process_pixel_def advance_cursor_def
  in_window_def be16_def Let_def word_le_nat_alt word_less_nat_alt

section \<open>Chunked delivery\<close>

lemma spi_bytes_append: "spi_bytes st (xs @ ys) = spi_bytes (spi_bytes st xs) ys"
  by (induction xs arbitrary: st) simp_all

lemma spi_done_nil: "gc9a01_spi_done cs c [] = c"
  by (simp add: gc9a01_spi_done_def)

lemma spi_done_append:
  "gc9a01_spi_done cs (gc9a01_spi_done cs c xs) ys = gc9a01_spi_done cs c (xs @ ys)"
  by (cases cs) (simp_all add: gc9a01_spi_done_def spi_bytes_append)

text \<open>
  C2. For every byte sequence and every partition of it into consecutive chunks
  (empty and single-byte chunks included), delivering the chunks by successive
  calls of \<open>gc9a01_spi_done\<close> ends in the same controller state, surface and
  transport state as delivering the concatenation in one call.
\<close>

theorem chunked_delivery_same_as_whole:
  "deliver_chunks cs c chunks = gc9a01_spi_done cs c (concat chunks)"
proof (induction chunks arbitrary: c)
  case Nil
  show ?case by (simp add: spi_done_nil)
next
  case (Cons chunk chunks)
  show ?case by (simp add: Cons.IH spi_done_append)
qed

section \<open>Reset\<close>

lemma fill_row_keeps_black:
  "fb off = 0xff000000 \<Longrightarrow> fill_row w y x fb off = 0xff000000"
proof (induction w y x fb rule: fill_row.induct)
  case (1 w y x fb)
  show ?case
  proof (cases "x < w")
    case True
    have "buffer_write fb ((y * w + x) * 4) 0xff000000 off = 0xff000000"
      using "1.prems" by (simp add: buffer_write_def)
    then show ?thesis
      using True "1.IH" by (simp add: fill_row.simps [of w y x fb])
  next
    case False
    then show ?thesis
      using "1.prems" by (simp add: fill_row.simps [of w y x fb])
  qed
qed

lemma fill_row_blackens:
  "x \<le> x' \<Longrightarrow> x' < w \<Longrightarrow> fill_row w y x fb ((y * w + x') * 4) = 0xff000000"
proof (induction w y x fb rule: fill_row.induct)
  case (1 w y x fb)
  from "1.prems" have lt: "x < w" by simp
  show ?case
  proof (cases "x = x'")
    case True
    have "buffer_write fb ((y * w + x) * 4) 0xff000000 ((y * w + x') * 4) = 0xff000000"
      using True by (simp add: buffer_write_def)
    then have "fill_row w y (x + 1) (buffer_write fb ((y * w + x) * 4) 0xff000000)
        ((y * w + x') * 4) = 0xff000000"
      by (rule fill_row_keeps_black)
    then show ?thesis
      using lt by (simp add: fill_row.simps [of w y x fb])
  next
    case False
    with "1.prems" have "x < x'" by simp
    then have "x + 1 \<le> x'" by (rule inc_le)
    then have "fill_row w y (x + 1) (buffer_write fb ((y * w + x) * 4) 0xff000000)
        ((y * w + x') * 4) = 0xff000000"
      using lt "1.prems" "1.IH" by simp
    then show ?thesis
      using lt by (simp add: fill_row.simps [of w y x fb])
  qed
qed

lemma fill_rows_keeps_black:
  "fb off = 0xff000000 \<Longrightarrow> fill_rows w h y fb off = 0xff000000"
proof (induction w h y fb rule: fill_rows.induct)
  case (1 w h y fb)
  show ?case
  proof (cases "y < h")
    case True
    have "fill_row w y 0 fb off = 0xff000000"
      using "1.prems" by (rule fill_row_keeps_black)
    then show ?thesis
      using True "1.IH" by (simp add: fill_rows.simps [of w h y fb])
  next
    case False
    then show ?thesis
      using "1.prems" by (simp add: fill_rows.simps [of w h y fb])
  qed
qed

lemma fill_rows_blackens:
  "y \<le> y' \<Longrightarrow> y' < h \<Longrightarrow> x' < w \<Longrightarrow>
   fill_rows w h y fb ((y' * w + x') * 4) = 0xff000000"
proof (induction w h y fb rule: fill_rows.induct)
  case (1 w h y fb)
  from "1.prems" have lt: "y < h" by simp
  show ?case
  proof (cases "y = y'")
    case True
    have "fill_row w y 0 fb ((y * w + x') * 4) = 0xff000000"
      by (rule fill_row_blackens) (use "1.prems" in simp_all)
    then have "fill_rows w h (y + 1) (fill_row w y 0 fb) ((y * w + x') * 4) = 0xff000000"
      by (rule fill_rows_keeps_black)
    then have "fill_rows w h (y + 1) (fill_row w y 0 fb) ((y' * w + x') * 4) = 0xff000000"
      using True by (simp only:)
    then show ?thesis
      using lt by (simp add: fill_rows.simps [of w h y fb])
  next
    case False
    with "1.prems" have "y < y'" by simp
    then have "y + 1 \<le> y'" by (rule inc_le)
    then have "fill_rows w h (y + 1) (fill_row w y 0 fb) ((y' * w + x') * 4) = 0xff000000"
      using lt "1.prems" "1.IH" by simp
    then show ?thesis
      using lt by (simp add: fill_rows.simps [of w h y fb])
  qed
qed

lemma reset_display_surface:
  "x < width st \<Longrightarrow> y < height st \<Longrightarrow>
   framebuffer (reset_display st) ((y * width st + x) * 4) = 0xff000000"
proof -
  assume "x < width st" and "y < height st"
  then have "fill_rows (width st) (height st) 0 (framebuffer st) ((y * width st + x) * 4)
      = 0xff000000"
    by (intro fill_rows_blackens) simp_all
  moreover have "framebuffer (reset_display st)
      = fill_rows (width st) (height st) 0 (framebuffer st)"
    by (simp add: reset_display_def)
  ultimately show ?thesis by (simp only:)
qed

lemma reset_display_fields:
  "col_start (reset_display st) = 0"
  "col_end (reset_display st) = ucast (width st - 1)"
  "row_start (reset_display st) = 0"
  "row_end (reset_display st) = ucast (height st - 1)"
  "current_col (reset_display st) = 0"
  "current_row (reset_display st) = 0"
  "\<not> display_on (reset_display st)"
  "\<not> inverted (reset_display st)"
  "\<not> ram_write (reset_display st)"
  by (simp_all add: reset_display_def)

lemma ucast_pred_u16:
  fixes w :: u32
  assumes "0 < w" and "unat w \<le> 65536"
  shows "unat (ucast (w - 1) :: u16) = unat w - 1"
proof -
  from assms(1) have "w \<noteq> 0" by auto
  then have "unat (w - 1) = unat w - 1" by (rule unat_minus_one)
  moreover have "unat w \<noteq> 0" using \<open>w \<noteq> 0\<close> by (simp add: unat_eq_0)
  ultimately have "unat (w - 1) < 2 ^ 16" using assms(2) by simp
  then have "take_bit 16 (unat (w - 1)) = unat (w - 1)" by (rule take_bit_nat_eq_self)
  then show ?thesis using \<open>unat (w - 1) = unat w - 1\<close> by (simp add: unsigned_ucast_eq)
qed

text \<open>
  C3. After a reset, by the software reset opcode through \<open>process_command\<close> or by a
  falling edge of the reset line, whatever the state before: the window is the full
  surface (\<open>col_end\<close> and \<open>row_end\<close> hold \<open>width - 1\<close> and \<open>height - 1\<close>, cut to 16
  bits as the fields are), the cursor is at the origin, \<open>display_on\<close>, \<open>inverted\<close> and
  \<open>ram_write\<close> are false, and every location of the surface holds opaque black.
\<close>

theorem reset_restores_baseline:
  assumes "st' = process_command st GC9A01_SWRESET args len
         \<or> st' = fst (gc9a01_pin_change cs (st, armed) RST LOW)"
  shows "col_start st' = 0 \<and> col_end st' = ucast (width st - 1)
       \<and> row_start st' = 0 \<and> row_end st' = ucast (height st - 1)
       \<and> (0 < width st \<and> unat (width st) \<le> 65536 \<longrightarrow> unat (col_end st') = unat (width st) - 1)
       \<and> (0 < height st \<and> unat (height st) \<le> 65536 \<longrightarrow> unat (row_end st') = unat (height st) - 1)
       \<and> current_col st' = 0 \<and> current_row st' = 0
       \<and> \<not> display_on st' \<and> \<not> inverted st' \<and> \<not> ram_write st'
       \<and> (\<forall>x y. x < width st \<longrightarrow> y < height st \<longrightarrow>
             framebuffer st' ((y * width st + x) * 4) = 0xff000000)"
proof -
  have "process_command st GC9A01_SWRESET args len = reset_display st"
    by (simp add: process_command_def)
  moreover have "fst (gc9a01_pin_change cs (st, armed) RST LOW) = reset_display st"
    by (simp add: gc9a01_pin_change_def)
  ultimately have eq: "st' = reset_display st"
    using assms by auto
  have surface: "\<forall>x y. x < width st \<longrightarrow> y < height st \<longrightarrow>
      framebuffer (reset_display st) ((y * width st + x) * 4) = 0xff000000"
    by (intro allI impI) (rule reset_display_surface)
  have fields: "col_start (reset_display st) = 0 \<and> col_end (reset_display st) = ucast (width st - 1)
       \<and> row_start (reset_display st) = 0 \<and> row_end (reset_display st) = ucast (height st - 1)
       \<and> (0 < width st \<and> unat (width st) \<le> 65536 \<longrightarrow>
            unat (col_end (reset_display st)) = unat (width st) - 1)
       \<and> (0 < height st \<and> unat (height st) \<le> 65536 \<longrightarrow>
            unat (row_end (reset_display st)) = unat (height st) - 1)
       \<and> current_col (reset_display st) = 0 \<and> current_row (reset_display st) = 0
       \<and> \<not> display_on (reset_display st) \<and> \<not> inverted (reset_display st)
       \<and> \<not> ram_write (reset_display st)"
    by (simp add: reset_display_fields ucast_pred_u16)
  show ?thesis
    unfolding eq using fields surface by blast
qed

theorem reset_restores_baseline_witness:
  "col_end (process_command painted_state GC9A01_SWRESET (\<lambda>_. 0) 0) = 239
   \<and> row_end (fst (gc9a01_pin_change HIGH (painted_state, True) RST LOW)) = 239
   \<and> \<not> ram_write (process_command painted_state GC9A01_SWRESET (\<lambda>_. 0) 0)
   \<and> framebuffer (process_command painted_state GC9A01_SWRESET (\<lambda>_. 0) 0) ((7 * 240 + 5) * 4)
       = 0xff000000
   \<and> framebuffer (fst (gc9a01_pin_change HIGH (painted_state, True) RST LOW)) ((239 * 240 + 239) * 4)
       = 0xff000000"
proof -
  let ?a = "process_command painted_state GC9A01_SWRESET (\<lambda>_. 0) 0"
  let ?b = "fst (gc9a01_pin_change HIGH (painted_state, True) RST LOW)"
  have w: "width painted_state = 240" and h: "height painted_state = 240"
    by (simp_all add: painted_state_def idle_state_def)
  have ra: "col_end ?a = ucast (width painted_state - 1) \<and> \<not> ram_write ?a
      \<and> ((5 :: u32) < width painted_state \<longrightarrow> (7 :: u32) < height painted_state \<longrightarrow>
           framebuffer ?a ((7 * width painted_state + 5) * 4) = 0xff000000)"
    using reset_restores_baseline [of ?a painted_state "\<lambda>_. 0" 0 HIGH True] by blast
  have rb: "row_end ?b = ucast (height painted_state - 1)
      \<and> ((239 :: u32) < width painted_state \<longrightarrow> (239 :: u32) < height painted_state \<longrightarrow>
           framebuffer ?b ((239 * width painted_state + 239) * 4) = 0xff000000)"
    using reset_restores_baseline [of ?b painted_state "\<lambda>_. 0" 0 HIGH True] by blast
  show ?thesis
    using ra rb unfolding w h by simp
qed

section \<open>Pixel pipeline: colour and mask\<close>

lemma framebuffer_advance_cursor [simp]: "framebuffer (advance_cursor st) = framebuffer st"
  by (simp add: advance_cursor_def Let_def)

lemma process_pixel_outside_window: "\<not> in_window st \<Longrightarrow> process_pixel st S = st"
  by (simp add: process_pixel_def)

lemma process_pixel_framebuffer:
  "in_window st \<Longrightarrow>
   framebuffer (process_pixel st S) =
     (framebuffer st)(pixel_offset st := (if outside_circle st then 0xff000000 else pixel_color st S))"
  by (simp add: process_pixel_def buffer_write_def Let_def)

lemma wrap_int_id: "- (2 ^ 31) \<le> i \<Longrightarrow> i < 2 ^ 31 \<Longrightarrow> wrap_int i = i"
  by (simp add: wrap_int_def signed_take_bit_int_eq_self_iff)

lemma wrap_int_nonneg: "0 \<le> i \<Longrightarrow> i < 2 ^ 31 \<Longrightarrow> wrap_int i = i"
  by (simp add: wrap_int_id)

lemma uint_u16_bound: "uint (x :: u16) < 65536"
  using uint_lt2p [of x] by simp

lemma uint_half_bound: "uint ((w :: u32) div 2) < 2 ^ 31"
proof -
  have "uint w < 2 ^ 32" using uint_lt2p [of w] by simp
  then have "uint w div 2 < 2 ^ 31" by simp
  then show ?thesis by (simp add: uint_div)
qed

lemma outside_circle_exact:
  fixes st :: gc9a01_state
  defines "c \<equiv> uint (width st div 2)"
  defines "dx \<equiv> uint (current_col st) - c"
  defines "dy \<equiv> uint (current_row st) - c"
  assumes cc: "c * c < 2 ^ 31" and dd: "dx * dx + dy * dy < 2 ^ 31"
  shows "outside_circle st \<longleftrightarrow> dx * dx + dy * dy > c * c"
proof -
  have c0: "0 \<le> c" and c1: "c < 2 ^ 31"
    using uint_half_bound [of "width st"] by (simp_all add: c_def)
  have c1': "c < 2147483648" using c1 by simp
  have x0: "0 \<le> uint (current_col st)" and y0: "0 \<le> uint (current_row st)" by simp_all
  have x1: "uint (current_col st) < 65536" and y1: "uint (current_row st) < 65536"
    by (rule uint_u16_bound)+
  have "- 2147483648 \<le> dx" "dx < 2147483648" "- 2147483648 \<le> dy" "dy < 2147483648"
    unfolding dx_def dy_def using c0 c1' x0 x1 y0 y1 by linarith+
  then have wdx: "wrap_int dx = dx" and wdy: "wrap_int dy = dy"
    by (simp_all add: wrap_int_id)
  have sq: "0 \<le> dx * dx" "0 \<le> dy * dy" "0 \<le> c * c" by simp_all
  then have lt: "dx * dx < 2 ^ 31" "dy * dy < 2 ^ 31" using dd by linarith+
  have wxx: "wrap_int (dx * dx) = dx * dx"
    by (rule wrap_int_nonneg) (rule sq lt)+
  have wyy: "wrap_int (dy * dy) = dy * dy"
    by (rule wrap_int_nonneg) (rule sq lt)+
  have "0 \<le> dx * dx + dy * dy" using sq by linarith
  then have wsum: "wrap_int (dx * dx + dy * dy) = dx * dx + dy * dy"
    using dd by (rule wrap_int_nonneg)
  have wcc: "wrap_int (c * c) = c * c"
    by (rule wrap_int_nonneg) (rule sq cc)+
  have "outside_circle st \<longleftrightarrow>
      wrap_int (wrap_int (wrap_int dx * wrap_int dx) + wrap_int (wrap_int dy * wrap_int dy))
        > wrap_int (c * c)"
    by (simp add: outside_circle_def Let_def c_def dx_def dy_def)
  then show ?thesis
    by (simp only: wdx wdy wxx wyy wsum wcc)
qed

text \<open>
  C4. A sample \<open>S\<close> written with inversion off, while the cursor is inside the address
  window and inside the centred circle (squared distance from the centre at most
  \<open>(width div 2)\<^sup>2\<close>, the square fitting the C type \<^verbatim>\<open>int\<close>), is stored at the
  cursor's location as
  \<open>0xff000000 | ((S & 0x001F) << 19) | ((S & 0x07E0) << 5) | ((S & 0xF800) >> 8)\<close>.
\<close>

theorem sample_roundtrip:
  fixes st :: gc9a01_state and S :: u16
  defines "c \<equiv> uint (width st div 2)"
  assumes "\<not> inverted st"
    and "col_start st \<le> current_col st" and "current_col st \<le> col_end st"
    and "row_start st \<le> current_row st" and "current_row st \<le> row_end st"
    and "c * c < 2 ^ 31"
    and "(uint (current_col st) - c) * (uint (current_col st) - c)
       + (uint (current_row st) - c) * (uint (current_row st) - c) \<le> c * c"
  shows "framebuffer (process_pixel st S)
           ((ucast (current_row st) * width st + ucast (current_col st)) * 4)
         = 0xff000000 OR push_bit 19 (ucast S AND 0x001F) OR push_bit 5 (ucast S AND 0x07E0)
             OR drop_bit 8 (ucast S AND 0xF800)"
proof -
  have win: "in_window st"
    using assms(3-6) by (simp add: in_window_def not_less)
  have "\<not> outside_circle st"
    using outside_circle_exact [of st] assms(7,8) by (simp add: c_def)
  then have "framebuffer (process_pixel st S) (pixel_offset st) = pixel_color st S"
    using win by (simp add: process_pixel_framebuffer)
  then show ?thesis
    using assms(2) by (simp add: pixel_color_def rgb565_to_rgba_def pixel_offset_def)
qed


theorem sample_roundtrip_witness:
  "framebuffer (process_pixel center_plain 0x1234) ((120 * 240 + 120) * 4) = 0xFFA04410"
  using sample_roundtrip [of center_plain "0x1234"]
  by (simp add: center_plain_def idle_state_def)

lemma square_bound:
  fixes d :: int
  assumes "- 32767 \<le> d" and "d \<le> 32767"
  shows "d * d \<le> 1073676289"
proof -
  have a: "\<bar>d\<bar> \<le> 32767" using assms by simp
  have "\<bar>d\<bar> * \<bar>d\<bar> \<le> 32767 * 32767"
    by (rule mult_mono) (use a in simp_all)
  then show ?thesis by simp
qed

lemma outside_circle_240:
  assumes w: "width st = 240"
    and x: "uint (current_col st) < 32768" and y: "uint (current_row st) < 32768"
  shows "outside_circle st \<longleftrightarrow>
     (uint (current_col st) - 120) * (uint (current_col st) - 120)
       + (uint (current_row st) - 120) * (uint (current_row st) - 120) > 120 * 120"
proof -
  have c: "uint (width st div 2) = 120" by (simp add: w)
  have x0: "0 \<le> uint (current_col st)" and y0: "0 \<le> uint (current_row st)" by simp_all
  have "(uint (current_col st) - 120) * (uint (current_col st) - 120) \<le> 1073676289"
    by (rule square_bound) (use x x0 in linarith)+
  moreover have "(uint (current_row st) - 120) * (uint (current_row st) - 120) \<le> 1073676289"
    by (rule square_bound) (use y y0 in linarith)+
  ultimately have "(uint (current_col st) - 120) * (uint (current_col st) - 120)
       + (uint (current_row st) - 120) * (uint (current_row st) - 120) < 2 ^ 31"
    by simp
  then show ?thesis
    using outside_circle_exact [of st] by (simp add: c)
qed

text \<open>
  C5. On a surface 240 wide, for every sample and either inversion setting, with the
  cursor inside the window: at (0, 0) the stored colour is opaque black; at
  (120, 120) it is the converted colour, inverted when inversion is on; and for every
  cursor with both coordinates below 32768 (where the C arithmetic cannot overflow)
  the mask forces black exactly when \<open>dx\<^sup>2 + dy\<^sup>2 > 120\<^sup>2\<close>, for the offsets
  \<open>dx\<close>, \<open>dy\<close> of the cursor from (120, 120).
\<close>

theorem circular_mask_240:
  assumes "width st = 240" and "in_window st"
  shows "(current_col st = 0 \<and> current_row st = 0 \<longrightarrow>
            framebuffer (process_pixel st S) 0 = 0xff000000)
       \<and> (current_col st = 120 \<and> current_row st = 120 \<longrightarrow>
            framebuffer (process_pixel st S) ((120 * 240 + 120) * 4)
              = (if inverted st then invert_color (rgb565_to_rgba S) else rgb565_to_rgba S))
       \<and> (uint (current_col st) < 32768 \<and> uint (current_row st) < 32768 \<longrightarrow>
            (outside_circle st \<longleftrightarrow>
               (uint (current_col st) - 120) * (uint (current_col st) - 120)
                 + (uint (current_row st) - 120) * (uint (current_row st) - 120) > 120 * 120)
            \<and> framebuffer (process_pixel st S)
                 ((ucast (current_row st) * 240 + ucast (current_col st)) * 4)
              = (if (uint (current_col st) - 120) * (uint (current_col st) - 120)
                      + (uint (current_row st) - 120) * (uint (current_row st) - 120) > 120 * 120
                 then 0xff000000
                 else if inverted st then invert_color (rgb565_to_rgba S)
                 else rgb565_to_rgba S))"
proof -
  have stored: "framebuffer (process_pixel st S)
        ((ucast (current_row st) * 240 + ucast (current_col st)) * 4)
      = (if outside_circle st then 0xff000000
         else if inverted st then invert_color (rgb565_to_rgba S) else rgb565_to_rgba S)"
    using assms by (simp add: process_pixel_framebuffer pixel_offset_def pixel_color_def)
  have general: "uint (current_col st) < 32768 \<and> uint (current_row st) < 32768 \<longrightarrow>
      (outside_circle st \<longleftrightarrow>
         (uint (current_col st) - 120) * (uint (current_col st) - 120)
           + (uint (current_row st) - 120) * (uint (current_row st) - 120) > 120 * 120)"
    using outside_circle_240 [OF assms(1)] by blast
  have corner: "current_col st = 0 \<and> current_row st = 0 \<longrightarrow> outside_circle st"
    using general by auto
  have centre: "current_col st = 120 \<and> current_row st = 120 \<longrightarrow> \<not> outside_circle st"
    using general by auto
  have p1: "current_col st = 0 \<and> current_row st = 0 \<longrightarrow>
      framebuffer (process_pixel st S) 0 = 0xff000000"
    using stored corner by auto
  have p2: "current_col st = 120 \<and> current_row st = 120 \<longrightarrow>
      framebuffer (process_pixel st S) ((120 * 240 + 120) * 4)
        = (if inverted st then invert_color (rgb565_to_rgba S) else rgb565_to_rgba S)"
    using stored centre by auto
  show ?thesis
    using p1 p2 general stored by presburger
qed

theorem circular_mask_240_witness:
  "framebuffer (process_pixel idle_state 0xFFFF) 0 = 0xff000000
   \<and> framebuffer (process_pixel center_state 0xFFFF) ((120 * 240 + 120) * 4) = 0xFF070307
   \<and> framebuffer (process_pixel center_plain 0xFFFF) ((120 * 240 + 120) * 4) = 0xFFF8FCF8"
proof -
  have a: "width idle_state = 240 \<and> in_window idle_state
      \<and> current_col idle_state = 0 \<and> current_row idle_state = 0"
    by (simp add: idle_state_def in_window_def)
  have b: "width center_state = 240 \<and> in_window center_state
      \<and> current_col center_state = 120 \<and> current_row center_state = 120
      \<and> inverted center_state"
    by (simp add: center_state_def idle_state_def in_window_def)
  have c: "width center_plain = 240 \<and> in_window center_plain
      \<and> current_col center_plain = 120 \<and> current_row center_plain = 120
      \<and> \<not> inverted center_plain"
    by (simp add: center_plain_def idle_state_def in_window_def)
  have "framebuffer (process_pixel idle_state 0xFFFF) 0 = 0xff000000"
    using circular_mask_240 [of idle_state "0xFFFF"] a by blast
  moreover have "framebuffer (process_pixel center_state 0xFFFF) ((120 * 240 + 120) * 4)
      = invert_color (rgb565_to_rgba 0xFFFF)"
    using circular_mask_240 [of center_state "0xFFFF"] b by presburger
  moreover have "framebuffer (process_pixel center_plain 0xFFFF) ((120 * 240 + 120) * 4)
      = rgb565_to_rgba 0xFFFF"
    using circular_mask_240 [of center_plain "0xFFFF"] c by presburger
  ultimately show ?thesis
    by (simp add: invert_color_def rgb565_to_rgba_def)
qed

section \<open>Pixel pipeline: where a sample is written\<close>

text \<open>
  The window and cursor of \<open>below_surface_state\<close> are what the chip holds after the
  byte stream of \<open>below_surface_run\<close>: select low, column window 120 to 120, row
  window 240 to 240, memory write, then data mode and the high byte of a sample.
\<close>

lemma below_surface_state_reached:
  "col_start (fst below_surface_run) = col_start below_surface_state
   \<and> col_end (fst below_surface_run) = col_end below_surface_state
   \<and> row_start (fst below_surface_run) = row_start below_surface_state
   \<and> row_end (fst below_surface_run) = row_end below_surface_state
   \<and> current_col (fst below_surface_run) = current_col below_surface_state
   \<and> current_row (fst below_surface_run) = current_row below_surface_state
   \<and> width (fst below_surface_run) = width below_surface_state
   \<and> height (fst below_surface_run) = height below_surface_state
   \<and> inverted (fst below_surface_run) = inverted below_surface_state
   \<and> framebuffer (fst below_surface_run) = framebuffer below_surface_state
   \<and> ram_write (fst below_surface_run) \<and> pending_data_valid (fst below_surface_run)
   \<and> mode (fst below_surface_run) = GC9A01_MODE_DATA"
  by (simp add: below_surface_run_def below_surface_state_def idle_state_def
      gc9a01_spi_done_def gc9a01_pin_change_def spi_byte_def get_expected_arg_count_def
      process_command_def be16_def Let_def word_le_nat_alt word_less_nat_alt)

text \<open>
  With the cursor at column 120 of row 240, one row below the surface and on the
  rim of the circle, the sample \<open>0xFFFF\<close> is written unmasked at byte offset 230880,
  beyond the 230400 bytes of the 240 by 240 surface.
\<close>

theorem write_beyond_surface:
  "in_window below_surface_state
   \<and> framebuffer below_surface_state 230880 = 0xff000000
   \<and> framebuffer (process_pixel below_surface_state 0xFFFF) 230880 = 0xFFF8FCF8
   \<and> unat (width below_surface_state) * unat (height below_surface_state) * 4
       \<le> unat (230880 :: u32)"
  by (simp add: below_surface_state_def idle_state_def in_window_def process_pixel_def
      pixel_offset_def pixel_color_def outside_circle_def wrap_int_def rgb565_to_rgba_def
      buffer_write_def Let_def)

lemma unat_ucast_u16_u32: "unat (ucast (x :: u16) :: u32) = unat x"
proof -
  have "unat x < 2 ^ LENGTH(16)" by (rule unsigned_less)
  then have "unat x < 2 ^ 32" by simp
  then have "take_bit 32 (unat x) = unat x" by (rule take_bit_nat_eq_self)
  then show ?thesis by (simp add: unsigned_ucast_eq)
qed

lemma pixel_offset_inside:
  assumes xx: "unat (current_col st) < unat (width st)"
    and yy: "unat (current_row st) < unat (height st)"
    and sz: "unat (width st) * unat (height st) * 4 \<le> 2 ^ 32"
  shows "unat (pixel_offset st) < unat (width st) * unat (height st) * 4"
proof -
  let ?c = "unat (current_col st)" and ?r = "unat (current_row st)"
  let ?w = "unat (width st)" and ?h = "unat (height st)"
  define a where "a = ?r * ?w + ?c"
  define b where "b = ?h * ?w"
  have "Suc ?r * ?w \<le> ?h * ?w"
    by (rule mult_le_mono1) (use yy in simp)
  then have lin: "a < b"
    using xx by (simp add: a_def b_def)
  have "b * 4 \<le> 2 ^ 32"
    using sz by (simp add: b_def mult.commute)
  then have small: "a * 4 < 2 ^ 32"
    using lin by simp
  let ?R = "ucast (current_row st) :: u32" and ?C = "ucast (current_col st) :: u32"
  have "unat ?R * unat (width st) < 2 ^ LENGTH(32)"
    using small by (simp add: a_def unat_ucast_u16_u32)
  then have e1: "unat (?R * width st) = ?r * ?w"
    using unat_mult_lem [of ?R "width st"] by (simp add: unat_ucast_u16_u32)
  have "unat (?R * width st) + unat ?C < 2 ^ LENGTH(32)"
    using small by (simp add: a_def e1 unat_ucast_u16_u32)
  then have e2: "unat (?R * width st + ?C) = a"
    using unat_add_lem [of "?R * width st" ?C] by (simp add: a_def e1 unat_ucast_u16_u32)
  have "unat (?R * width st + ?C) * unat (4 :: u32) < 2 ^ LENGTH(32)"
    using small by (simp add: e2)
  then have "unat ((?R * width st + ?C) * 4) = unat (?R * width st + ?C) * unat (4 :: u32)"
    by (simp only: unat_mult_lem)
  then have "unat ((?R * width st + ?C) * 4) = a * 4"
    by (simp add: e2)
  then have "unat (pixel_offset st) < b * 4"
    unfolding pixel_offset_def using lin by simp
  then show ?thesis
    by (simp add: b_def mult.commute)
qed

text \<open>
  C1 (amended). \<open>process_pixel\<close> checks the cursor against the address window only,
  never against the surface. A sample that finds the cursor outside the window
  changes nothing. A sample that finds it inside the window makes exactly one
  write, at byte offset \<open>(row * width + col) * 4\<close> in 32 bits; that offset lies inside
  the \<open>width * height * 4\<close> bytes of the surface whenever the cursor itself does
  (\<open>col < width\<close>, \<open>row < height\<close>, on a surface of at most \<open>2 ^ 32\<close> bytes).
\<close>

theorem pixel_write_location:
  "(\<not> in_window st \<longrightarrow> process_pixel st S = st)
   \<and> (in_window st \<longrightarrow>
        framebuffer (process_pixel st S) =
          (framebuffer st)
            ((ucast (current_row st) * width st + ucast (current_col st)) * 4 :=
               (if outside_circle st then 0xff000000 else pixel_color st S)))
   \<and> (unat (current_col st) < unat (width st) \<and> unat (current_row st) < unat (height st)
        \<and> unat (width st) * unat (height st) * 4 \<le> 2 ^ 32 \<longrightarrow>
        unat ((ucast (current_row st) * width st + ucast (current_col st)) * 4 :: u32)
          < unat (width st) * unat (height st) * 4)"
proof -
  have a: "\<not> in_window st \<longrightarrow> process_pixel st S = st"
    by (simp add: process_pixel_outside_window)
  have b: "in_window st \<longrightarrow>
        framebuffer (process_pixel st S) =
          (framebuffer st)
            (pixel_offset st := (if outside_circle st then 0xff000000 else pixel_color st S))"
    by (simp add: process_pixel_framebuffer)
  have c: "unat (current_col st) < unat (width st) \<and> unat (current_row st) < unat (height st)
        \<and> unat (width st) * unat (height st) * 4 \<le> 2 ^ 32 \<longrightarrow>
        unat (pixel_offset st) < unat (width st) * unat (height st) * 4"
    using pixel_offset_inside [of st] by blast
  show ?thesis
    using a b c unfolding pixel_offset_def by blast
qed

theorem pixel_write_location_witness:
  "process_pixel stray_cursor_state 0xFFFF = stray_cursor_state
   \<and> framebuffer (process_pixel center_plain 0xFFFF)
       = (framebuffer center_plain)(115680 := 0xFFF8FCF8)
   \<and> unat (115680 :: u32) < 230400"
proof -
  have a: "\<not> in_window stray_cursor_state"
    by (simp add: stray_cursor_state_def idle_state_def in_window_def)
  have b: "in_window center_plain \<and> \<not> outside_circle center_plain
      \<and> pixel_color center_plain 0xFFFF = 0xFFF8FCF8
      \<and> (ucast (current_row center_plain) * width center_plain
           + ucast (current_col center_plain)) * 4 = 115680
      \<and> unat (current_col center_plain) = 120 \<and> unat (current_row center_plain) = 120
      \<and> unat (width center_plain) = 240 \<and> unat (height center_plain) = 240"
    by (simp add: center_plain_def idle_state_def in_window_def outside_circle_def
        wrap_int_def pixel_color_def rgb565_to_rgba_def)
  have "process_pixel stray_cursor_state 0xFFFF = stray_cursor_state"
    using pixel_write_location [of stray_cursor_state "0xFFFF"] a by blast
  moreover have "framebuffer (process_pixel center_plain 0xFFFF)
       = (framebuffer center_plain)(115680 := 0xFFF8FCF8)
     \<and> unat (115680 :: u32) < 230400"
    using pixel_write_location [of center_plain "0xFFFF"] b by simp
  ultimately show ?thesis by blast
qed

section \<open>Pixel pipeline: cursor advance\<close>

lemma in_window_nat:
  "in_window st \<longleftrightarrow>
     unat (col_start st) \<le> unat (current_col st) \<and> unat (current_col st) \<le> unat (col_end st) \<and>
     unat (row_start st) \<le> unat (current_row st) \<and> unat (current_row st) \<le> unat (row_end st)"
  by (auto simp add: in_window_def word_le_nat_alt word_less_nat_alt)

lemma unat_succ_u16: "(x :: u16) < 0xFFFF \<Longrightarrow> unat (x + 1) = Suc (unat x)"
proof -
  assume "x < 0xFFFF"
  then have "unat x < 65535" by (simp add: word_less_nat_alt)
  then have "unat x + unat (1 :: u16) < 2 ^ LENGTH(16)" by simp
  then have "unat (x + 1) = unat x + unat (1 :: u16)" by (simp only: unat_add_lem)
  then show ?thesis by simp
qed

lemma advance_cursor_window [simp]:
  "col_start (advance_cursor st) = col_start st"
  "col_end (advance_cursor st) = col_end st"
  "row_start (advance_cursor st) = row_start st"
  "row_end (advance_cursor st) = row_end st"
  by (simp_all add: advance_cursor_def Let_def)

lemma advance_cursor_col:
  "current_col (advance_cursor st) =
     (if current_col st + 1 > col_end st then col_start st else current_col st + 1)"
  by (simp add: advance_cursor_def Let_def)

lemma advance_cursor_row:
  "current_row (advance_cursor st) =
     (if current_col st + 1 > col_end st then
        (if current_row st + 1 > row_end st then row_start st else current_row st + 1)
      else current_row st)"
  by (simp add: advance_cursor_def Let_def)

lemma process_pixel_cursor:
  assumes "in_window st"
  shows "current_col (process_pixel st S) =
           (if current_col st + 1 > col_end st then col_start st else current_col st + 1)"
    and "current_row (process_pixel st S) =
           (if current_col st + 1 > col_end st then
              (if current_row st + 1 > row_end st then row_start st else current_row st + 1)
            else current_row st)"
    and "same_window st (process_pixel st S)"
  using assms
  by (simp_all add: process_pixel_def Let_def advance_cursor_col advance_cursor_row same_window_def)


lemma process_pixel_cursor_nat:
  assumes win: "in_window st" and ce: "col_end st < 0xFFFF" and re: "row_end st < 0xFFFF"
  shows "unat (current_col (process_pixel st S)) =
           (if unat (current_col st) < unat (col_end st) then Suc (unat (current_col st))
            else unat (col_start st))"
    and "unat (current_row (process_pixel st S)) =
           (if unat (current_col st) < unat (col_end st) then unat (current_row st)
            else if unat (current_row st) < unat (row_end st) then Suc (unat (current_row st))
            else unat (row_start st))"
proof -
  have cle: "unat (current_col st) \<le> unat (col_end st)"
    and rle: "unat (current_row st) \<le> unat (row_end st)"
    using win by (simp_all add: in_window_nat)
  have "unat (col_end st) < 65535" "unat (row_end st) < 65535"
    using ce re by (simp_all add: word_less_nat_alt)
  then have "current_col st < 0xFFFF" "current_row st < 0xFFFF"
    using cle rle by (simp_all add: word_less_nat_alt)
  then have sc: "unat (current_col st + 1) = Suc (unat (current_col st))"
    and sr: "unat (current_row st + 1) = Suc (unat (current_row st))"
    by (simp_all add: unat_succ_u16)
  have c: "current_col st + 1 > col_end st \<longleftrightarrow> \<not> unat (current_col st) < unat (col_end st)"
    using cle by (auto simp add: word_less_nat_alt sc)
  have r: "current_row st + 1 > row_end st \<longleftrightarrow> \<not> unat (current_row st) < unat (row_end st)"
    using rle by (auto simp add: word_less_nat_alt sr)
  show "unat (current_col (process_pixel st S)) =
           (if unat (current_col st) < unat (col_end st) then Suc (unat (current_col st))
            else unat (col_start st))"
    by (simp add: process_pixel_cursor(1) [OF win] c sc)
  show "unat (current_row (process_pixel st S)) =
           (if unat (current_col st) < unat (col_end st) then unat (current_row st)
            else if unat (current_row st) < unat (row_end st) then Suc (unat (current_row st))
            else unat (row_start st))"
    by (simp add: process_pixel_cursor(2) [OF win] c r sr)
qed

lemma index_step:
  fixes W H x y :: nat
  assumes x: "x < W" and y: "y < H"
  shows "(if Suc x < W then y * W + Suc x else if Suc y < H then Suc y * W else 0)
       = Suc (y * W + x) mod (W * H)"
proof -
  have row: "Suc y * W \<le> H * W"
    by (rule mult_le_mono1) (use y in simp)
  consider (a) "Suc x < W" | (b) "Suc x = W" "Suc y < H" | (c) "Suc x = W" "Suc y = H"
    using x y by linarith
  then show ?thesis
  proof cases
    case a
    then have "Suc (y * W + x) < Suc y * W" by simp
    then have "Suc (y * W + x) < W * H" using row by (simp add: mult.commute)
    then show ?thesis using a by simp
  next
    case b
    have "Suc (Suc y) * W \<le> H * W"
      by (rule mult_le_mono1) (use b in simp)
    then have "Suc y * W < W * H" using x by (simp add: mult.commute)
    moreover have "Suc (y * W + x) = Suc y * W" using b(1) by simp
    ultimately show ?thesis using b by simp
  next
    case c
    have "Suc (y * W + x) = Suc y * W" using c(1) by simp
    also have "\<dots> = W * H" using c(2) by (simp add: mult.commute)
    finally show ?thesis using c by simp
  qed
qed

lemma process_pixel_index:
  assumes win: "in_window st" and ce: "col_end st < 0xFFFF" and re: "row_end st < 0xFFFF"
  shows "in_window (process_pixel st S)"
    and "cursor_index (process_pixel st S)
         = Suc (cursor_index st) mod (window_cols st * window_rows st)"
proof -
  let ?st' = "process_pixel st S"
  have sw: "same_window st ?st'" by (rule process_pixel_cursor(3) [OF win])
  note cur = process_pixel_cursor_nat [OF win ce re, of S]
  have b: "unat (col_start st) \<le> unat (current_col st)" "unat (current_col st) \<le> unat (col_end st)"
    "unat (row_start st) \<le> unat (current_row st)" "unat (current_row st) \<le> unat (row_end st)"
    using win by (simp_all add: in_window_nat)
  show "in_window ?st'"
    using sw b by (simp add: in_window_nat [of ?st'] cur same_window_def)
  let ?x = "unat (current_col st) - unat (col_start st)"
  let ?y = "unat (current_row st) - unat (row_start st)"
  have x: "?x < window_cols st" and y: "?y < window_rows st"
    using b by (simp_all add: window_cols_def window_rows_def)
  have wc: "window_cols ?st' = window_cols st"
    using sw by (simp add: window_cols_def same_window_def)
  have "cursor_index ?st' =
      (if Suc ?x < window_cols st then ?y * window_cols st + Suc ?x
       else if Suc ?y < window_rows st then Suc ?y * window_cols st else 0)"
    using sw b unfolding cursor_index_def wc cur
    by (auto simp add: same_window_def window_cols_def window_rows_def Suc_diff_le)
  also have "\<dots> = Suc (?y * window_cols st + ?x) mod (window_cols st * window_rows st)"
    by (rule index_step [OF x y])
  finally show "cursor_index ?st' = Suc (cursor_index st) mod (window_cols st * window_rows st)"
    by (simp add: cursor_index_def)
qed


lemma cursor_index_bound:
  assumes win: "in_window st"
  shows "cursor_index st < window_cols st * window_rows st"
proof -
  let ?x = "unat (current_col st) - unat (col_start st)"
  let ?y = "unat (current_row st) - unat (row_start st)"
  have b: "unat (col_start st) \<le> unat (current_col st)" "unat (current_col st) \<le> unat (col_end st)"
    "unat (row_start st) \<le> unat (current_row st)" "unat (current_row st) \<le> unat (row_end st)"
    using win by (simp_all add: in_window_nat)
  have x: "?x < window_cols st" and y: "Suc ?y \<le> window_rows st"
    using b unfolding window_cols_def window_rows_def by linarith+
  have "?y * window_cols st + ?x < Suc ?y * window_cols st"
    using x by simp
  also have "\<dots> \<le> window_rows st * window_cols st"
    by (rule mult_le_mono1) (rule y)
  finally show ?thesis
    by (simp add: cursor_index_def mult.commute)
qed

lemma cursor_index_zero:
  assumes win: "in_window st"
  shows "cursor_index st = 0 \<longleftrightarrow>
     current_col st = col_start st \<and> current_row st = row_start st"
proof -
  have b: "unat (col_start st) \<le> unat (current_col st)"
    "unat (row_start st) \<le> unat (current_row st)"
    using win by (simp_all add: in_window_nat)
  have "cursor_index st = 0 \<longleftrightarrow>
      unat (current_col st) = unat (col_start st) \<and> unat (current_row st) = unat (row_start st)"
    using b by (auto simp add: cursor_index_def window_cols_def)
  then show ?thesis
    by (simp add: word_unat_eq_iff)
qed

lemma write_samples_append:
  "write_samples st (Ss @ Ts) = write_samples (write_samples st Ss) Ts"
  by (induction Ss arbitrary: st) simp_all

lemma write_samples_index:
  assumes "in_window st" and "col_end st < 0xFFFF" and "row_end st < 0xFFFF"
  shows "in_window (write_samples st Ss) \<and> same_window st (write_samples st Ss)
       \<and> cursor_index (write_samples st Ss)
           = (cursor_index st + length Ss) mod (window_cols st * window_rows st)"
  using assms
proof (induction Ss arbitrary: st)
  case Nil
  then show ?case
    using cursor_index_bound [of st] by (simp add: same_window_def)
next
  case (Cons S Ss)
  let ?st1 = "process_pixel st S"
  let ?M = "window_cols st * window_rows st"
  have win1: "in_window ?st1"
    and idx1: "cursor_index ?st1 = Suc (cursor_index st) mod ?M"
    using process_pixel_index [OF Cons.prems] by simp_all
  have sw: "same_window st ?st1"
    by (rule process_pixel_cursor(3) [OF Cons.prems(1)])
  then have ce1: "col_end ?st1 < 0xFFFF" and re1: "row_end ?st1 < 0xFFFF"
    and M1: "window_cols ?st1 * window_rows ?st1 = ?M"
    using Cons.prems by (simp_all add: same_window_def window_cols_def window_rows_def)
  note ih = Cons.IH [OF win1 ce1 re1]
  have "cursor_index (write_samples ?st1 Ss) = (Suc (cursor_index st) mod ?M + length Ss) mod ?M"
    using ih by (simp add: M1 idx1)
  also have "\<dots> = (cursor_index st + length (S # Ss)) mod ?M"
    by (simp add: mod_add_left_eq)
  finally have "cursor_index (write_samples st (S # Ss))
      = (cursor_index st + length (S # Ss)) mod ?M"
    by simp
  moreover have "in_window (write_samples st (S # Ss))"
    using ih by simp
  moreover have "same_window st (write_samples st (S # Ss))"
    using ih sw by (simp add: same_window_def)
  ultimately show ?case by blast
qed

text \<open>
  The cursor advance of \<open>process_pixel\<close>, for an address window whose end column and
  end row are both below \<open>0xFFFF\<close>, from any state with the cursor inside the
  window. Each sample increments the column; past \<open>col_end\<close> the column returns to
  \<open>col_start\<close> and the row increments; past \<open>row_end\<close> the row returns to
  \<open>row_start\<close>. The cursor never leaves the window, and from the window's origin it
  is back at the origin after exactly \<open>(c1 - c0 + 1) * (r1 - r0 + 1)\<close> samples and not
  before, so that one sample more leaves it where a single sample does.
\<close>

theorem cursor_wraps_within_window:
  assumes win: "in_window st" and ce: "col_end st < 0xFFFF" and re: "row_end st < 0xFFFF"
  shows "unat (current_col (process_pixel st S)) =
           (if unat (current_col st) < unat (col_end st) then Suc (unat (current_col st))
            else unat (col_start st))
       \<and> unat (current_row (process_pixel st S)) =
           (if unat (current_col st) < unat (col_end st) then unat (current_row st)
            else if unat (current_row st) < unat (row_end st) then Suc (unat (current_row st))
            else unat (row_start st))
       \<and> (\<forall>Ss. in_window (write_samples st Ss) \<and> same_window st (write_samples st Ss))
       \<and> (current_col st = col_start st \<and> current_row st = row_start st \<longrightarrow>
            (\<forall>Ss. length Ss = window_cols st * window_rows st \<longrightarrow>
                  current_col (write_samples st Ss) = col_start st
                  \<and> current_row (write_samples st Ss) = row_start st)
          \<and> (\<forall>Ss. 0 < length Ss \<and> length Ss < window_cols st * window_rows st \<longrightarrow>
                  \<not> (current_col (write_samples st Ss) = col_start st
                     \<and> current_row (write_samples st Ss) = row_start st))
          \<and> (\<forall>Ss S'. length Ss = window_cols st * window_rows st \<longrightarrow>
                  current_col (write_samples st (Ss @ [S'])) = current_col (process_pixel st S')
                  \<and> current_row (write_samples st (Ss @ [S'])) = current_row (process_pixel st S')))"
proof -
  let ?M = "window_cols st * window_rows st"
  note run = write_samples_index [OF win ce re]
  have M0: "0 < ?M" by (simp add: window_cols_def window_rows_def)
  have step: "unat (current_col (process_pixel st S)) =
           (if unat (current_col st) < unat (col_end st) then Suc (unat (current_col st))
            else unat (col_start st))
       \<and> unat (current_row (process_pixel st S)) =
           (if unat (current_col st) < unat (col_end st) then unat (current_row st)
            else if unat (current_row st) < unat (row_end st) then Suc (unat (current_row st))
            else unat (row_start st))"
    using process_pixel_cursor_nat [OF win ce re, of S] by simp
  have stay: "\<forall>Ss. in_window (write_samples st Ss) \<and> same_window st (write_samples st Ss)"
    using run by blast
  have origin: "current_col st = col_start st \<and> current_row st = row_start st \<longrightarrow>
            (\<forall>Ss. length Ss = ?M \<longrightarrow>
                  current_col (write_samples st Ss) = col_start st
                  \<and> current_row (write_samples st Ss) = row_start st)
          \<and> (\<forall>Ss. 0 < length Ss \<and> length Ss < ?M \<longrightarrow>
                  \<not> (current_col (write_samples st Ss) = col_start st
                     \<and> current_row (write_samples st Ss) = row_start st))
          \<and> (\<forall>Ss S'. length Ss = ?M \<longrightarrow>
                  current_col (write_samples st (Ss @ [S'])) = current_col (process_pixel st S')
                  \<and> current_row (write_samples st (Ss @ [S'])) = current_row (process_pixel st S'))"
  proof (intro impI)
    assume at: "current_col st = col_start st \<and> current_row st = row_start st"
    then have i0: "cursor_index st = 0"
      using cursor_index_zero [OF win] by simp
    have idx: "cursor_index (write_samples st Ss) = length Ss mod ?M" for Ss
      using run [of Ss] by (simp add: i0)
    have zero: "cursor_index (write_samples st Ss) = 0 \<longleftrightarrow>
        current_col (write_samples st Ss) = col_start st
        \<and> current_row (write_samples st Ss) = row_start st" for Ss
      using cursor_index_zero [of "write_samples st Ss"] run [of Ss]
      by (simp add: same_window_def)
    have returned: "length Ss = ?M \<longrightarrow>
          current_col (write_samples st Ss) = col_start st
          \<and> current_row (write_samples st Ss) = row_start st" for Ss
      using zero [of Ss] idx [of Ss] by auto
    have notyet: "0 < length Ss \<and> length Ss < ?M \<longrightarrow>
          \<not> (current_col (write_samples st Ss) = col_start st
             \<and> current_row (write_samples st Ss) = row_start st)" for Ss
      using zero [of Ss] idx [of Ss] by auto
    have onemore: "length Ss = ?M \<longrightarrow>
          current_col (write_samples st (Ss @ [S'])) = current_col (process_pixel st S')
          \<and> current_row (write_samples st (Ss @ [S'])) = current_row (process_pixel st S')"
      for Ss S'
    proof
      assume len: "length Ss = ?M"
      let ?t = "write_samples st Ss"
      have t: "in_window ?t" "same_window st ?t" using run [of Ss] by simp_all
      have cur: "current_col ?t = current_col st" "current_row ?t = current_row st"
        using returned [of Ss] len at by simp_all
      show "current_col (write_samples st (Ss @ [S'])) = current_col (process_pixel st S')
          \<and> current_row (write_samples st (Ss @ [S'])) = current_row (process_pixel st S')"
        using t(2) cur
        by (simp add: write_samples_append process_pixel_cursor(1,2) [OF t(1)]
            process_pixel_cursor(1,2) [OF win] same_window_def)
    qed
    show "(\<forall>Ss. length Ss = ?M \<longrightarrow>
                  current_col (write_samples st Ss) = col_start st
                  \<and> current_row (write_samples st Ss) = row_start st)
          \<and> (\<forall>Ss. 0 < length Ss \<and> length Ss < ?M \<longrightarrow>
                  \<not> (current_col (write_samples st Ss) = col_start st
                     \<and> current_row (write_samples st Ss) = row_start st))
          \<and> (\<forall>Ss S'. length Ss = ?M \<longrightarrow>
                  current_col (write_samples st (Ss @ [S'])) = current_col (process_pixel st S')
                  \<and> current_row (write_samples st (Ss @ [S'])) = current_row (process_pixel st S'))"
      using returned notyet onemore by blast
  qed
  show ?thesis
    using step stay origin by blast
qed

text \<open>
  C6. The advance misses the window whose last column (or last row) is \<open>0xFFFF\<close>:
  the 16-bit increment wraps to 0, which never exceeds \<open>col_end\<close>, so the column is
  not reset to \<open>col_start\<close> and the row is not incremented. After the column window
  \<open>0xFFFF\<close> to \<open>0xFFFF\<close>, the row window 0 to 1 and a memory write, the cursor is
  inside the window at (\<open>0xFFFF\<close>, 0); one sample later it is at (0, 0), outside the
  window, where resetting the column and incrementing the row gives (\<open>0xFFFF\<close>, 1).
\<close>

theorem cursor_leaves_window_at_edge:
  "in_window (fst edge_window_armed)
   \<and> col_start (fst edge_window_armed) = 0xFFFF \<and> col_end (fst edge_window_armed) = 0xFFFF
   \<and> row_start (fst edge_window_armed) = 0 \<and> row_end (fst edge_window_armed) = 1
   \<and> current_col (fst edge_window_armed) = 0xFFFF \<and> current_row (fst edge_window_armed) = 0
   \<and> current_col (fst edge_window_run) = 0 \<and> current_row (fst edge_window_run) = 0
   \<and> col_start (fst edge_window_run) = 0xFFFF
   \<and> \<not> in_window (fst edge_window_run)"
  by (simp add: edge_window_run_def edge_window_armed_def idle_state_def
      gc9a01_spi_done_def gc9a01_pin_change_def spi_byte_def get_expected_arg_count_def
      process_command_def process_pixel_def advance_cursor_def in_window_def be16_def
      Let_def word_le_nat_alt word_less_nat_alt)

section \<open>States that differ only in dead parser fields\<close>

lemma reset_display_core:
  "core_equal s t \<Longrightarrow> core_equal (reset_display s) (reset_display t)"
  by (simp add: core_equal_def reset_display_def)

lemma advance_cursor_core:
  "core_equal s t \<Longrightarrow> core_equal (advance_cursor s) (advance_cursor t)"
  by (simp add: core_equal_def advance_cursor_def Let_def)

lemma process_pixel_core:
  "core_equal s t \<Longrightarrow> core_equal (process_pixel s v) (process_pixel t v)"
  by (simp add: core_equal_def process_pixel_def in_window_def outside_circle_def
      pixel_offset_def pixel_color_def advance_cursor_def Let_def)


lemma process_pixel_scratch:
  "current_command (process_pixel s v) = current_command s"
  "expected_args (process_pixel s v) = expected_args s"
  "received_args (process_pixel s v) = received_args s"
  "command_args (process_pixel s v) = command_args s"
  "pending_data (process_pixel s v) = pending_data s"
  "pending_data_valid (process_pixel s v) = pending_data_valid s"
  "is_receiving_command (process_pixel s v) = is_receiving_command s"
  "ram_write (process_pixel s v) = ram_write s"
  by (simp_all add: process_pixel_def advance_cursor_def Let_def)

lemma process_pixel_live:
  assumes "live_equal s t"
  shows "live_equal (process_pixel (s\<lparr>pending_data_valid := False\<rparr>) v)
           (process_pixel (t\<lparr>pending_data_valid := False\<rparr>) v)"
proof -
  have "core_equal (s\<lparr>pending_data_valid := False\<rparr>) (t\<lparr>pending_data_valid := False\<rparr>)"
    using assms by (simp add: live_equal_def core_equal_def)
  then have core: "core_equal (process_pixel (s\<lparr>pending_data_valid := False\<rparr>) v)
      (process_pixel (t\<lparr>pending_data_valid := False\<rparr>) v)"
    by (rule process_pixel_core)
  have "command_equal (process_pixel (s\<lparr>pending_data_valid := False\<rparr>) v)
      (process_pixel (t\<lparr>pending_data_valid := False\<rparr>) v)"
    using assms by (simp add: live_equal_def command_equal_def process_pixel_scratch)
  moreover have "pending_equal (process_pixel (s\<lparr>pending_data_valid := False\<rparr>) v)
      (process_pixel (t\<lparr>pending_data_valid := False\<rparr>) v)"
    by (simp add: pending_equal_def process_pixel_scratch)
  ultimately show ?thesis
    using core by (simp add: live_equal_def)
qed

lemma process_command_live:
  assumes "core_equal s t" and "pending_equal s t"
    and "len = 4 \<longrightarrow> a 0 = a' 0 \<and> a 1 = a' 1 \<and> a 2 = a' 2 \<and> a 3 = a' 3"
  shows "live_equal ((process_command s c a len)\<lparr>is_receiving_command := False\<rparr>)
           ((process_command t c a' len)\<lparr>is_receiving_command := False\<rparr>)"
  using assms
  by (simp add: live_equal_def core_equal_def command_equal_def pending_equal_def
      process_command_def reset_display_def)


lemma unat_succ_le: "unat ((x :: u8) + 1) \<le> Suc (unat x)"
  by (simp add: unat_word_ariths)

lemma spi_byte_live:
  assumes le: "live_equal s t"
  shows "live_equal (spi_byte s b) (spi_byte t b)"
proof -
  from le have core: "core_equal s t" and cmd: "command_equal s t" and pend: "pending_equal s t"
    by (simp_all add: live_equal_def)
  from core have m: "mode t = mode s" and r: "is_receiving_command t = is_receiving_command s"
    and w: "ram_write t = ram_write s"
    by (simp_all add: core_equal_def)
  show ?thesis
  proof (cases "mode s = GC9A01_MODE_COMMAND")
    case command: True
    show ?thesis
    proof (cases "is_receiving_command s")
      case idle: False
      let ?s1 = "s\<lparr>current_command := b, is_receiving_command := True, received_args := 0,
        expected_args := get_expected_arg_count b\<rparr>"
      let ?t1 = "t\<lparr>current_command := b, is_receiving_command := True, received_args := 0,
        expected_args := get_expected_arg_count b\<rparr>"
      have c1: "core_equal ?s1 ?t1" using core by (simp add: core_equal_def)
      have p1: "pending_equal ?s1 ?t1" using pend by (simp add: pending_equal_def)
      show ?thesis
      proof (cases "get_expected_arg_count b = 0")
        case True
        have "spi_byte s b = (process_command ?s1 b (\<lambda>_. 0) 0)\<lparr>is_receiving_command := False\<rparr>"
          and "spi_byte t b = (process_command ?t1 b (\<lambda>_. 0) 0)\<lparr>is_receiving_command := False\<rparr>"
          using command idle True by (simp_all add: spi_byte_def Let_def m r)
        then show ?thesis
          using process_command_live [OF c1 p1, of 0 "\<lambda>_. 0" "\<lambda>_. 0" b] by simp
      next
        case False
        have "spi_byte s b = ?s1" and "spi_byte t b = ?t1"
          using command idle False by (simp_all add: spi_byte_def Let_def m r)
        moreover have "command_equal ?s1 ?t1" by (simp add: command_equal_def)
        ultimately show ?thesis
          using c1 p1 by (simp add: live_equal_def)
      qed
    next
      case receiving: True
      let ?s1 = "s\<lparr>command_args := (command_args s)(unat (received_args s) := b),
        received_args := received_args s + 1\<rparr>"
      let ?t1 = "t\<lparr>command_args := (command_args t)(unat (received_args t) := b),
        received_args := received_args t + 1\<rparr>"
      from cmd receiving have cc: "current_command t = current_command s"
        and ea: "expected_args t = expected_args s" and ra: "received_args t = received_args s"
        and ca: "\<forall>i < unat (received_args s). command_args s i = command_args t i"
        by (simp_all add: command_equal_def)
      have c1: "core_equal ?s1 ?t1" using core by (simp add: core_equal_def)
      have p1: "pending_equal ?s1 ?t1" using pend by (simp add: pending_equal_def)
      have args: "command_args ?s1 i = command_args ?t1 i" if "i < unat (received_args s + 1)" for i
      proof -
        have "i \<le> unat (received_args s)"
          using that unat_succ_le [of "received_args s"] by simp
        then show ?thesis
          using ca by (auto simp add: ra)
      qed
      show ?thesis
      proof (cases "received_args s + 1 \<ge> expected_args s")
        case True
        have "spi_byte s b = (process_command ?s1 (current_command s) (command_args ?s1)
              (expected_args s))\<lparr>is_receiving_command := False\<rparr>"
          and "spi_byte t b = (process_command ?t1 (current_command s) (command_args ?t1)
              (expected_args s))\<lparr>is_receiving_command := False\<rparr>"
          using command receiving True by (simp_all add: spi_byte_def Let_def m r cc ea ra)
        moreover have "expected_args s = 4 \<longrightarrow>
            command_args ?s1 0 = command_args ?t1 0 \<and> command_args ?s1 1 = command_args ?t1 1
            \<and> command_args ?s1 2 = command_args ?t1 2 \<and> command_args ?s1 3 = command_args ?t1 3"
        proof
          assume four: "expected_args s = 4"
          then have "4 \<le> unat (received_args s + 1)"
            using True by (simp add: word_le_nat_alt)
          then show "command_args ?s1 0 = command_args ?t1 0
            \<and> command_args ?s1 1 = command_args ?t1 1
            \<and> command_args ?s1 2 = command_args ?t1 2
            \<and> command_args ?s1 3 = command_args ?t1 3"
            using args [of 0] args [of 1] args [of 2] args [of 3] by simp
        qed
        ultimately show ?thesis
          using process_command_live [OF c1 p1, of "expected_args s" "command_args ?s1"
              "command_args ?t1" "current_command s"]
          by simp
      next
        case False
        have "spi_byte s b = ?s1" and "spi_byte t b = ?t1"
          using command receiving False by (simp_all add: spi_byte_def Let_def m r cc ea ra)
        moreover have "command_equal ?s1 ?t1"
          using args by (simp add: command_equal_def cc ea ra)
        ultimately show ?thesis
          using c1 p1 by (simp add: live_equal_def)
      qed
    qed
  next
    case data: False
    show ?thesis
    proof (cases "ram_write s")
      case False
      then have "spi_byte s b = s" and "spi_byte t b = t"
        using data by (simp_all add: spi_byte_def m w)
      then show ?thesis using le by simp
    next
      case writing: True
      from pend writing have pv: "pending_data_valid t = pending_data_valid s"
        and pd: "pending_data_valid s \<longrightarrow> pending_data t = pending_data s"
        by (simp_all add: pending_equal_def)
      show ?thesis
      proof (cases "pending_data_valid s")
        case True
        have "spi_byte s b = process_pixel (s\<lparr>pending_data_valid := False\<rparr>)
              (be16 (pending_data s) b)"
          and "spi_byte t b = process_pixel (t\<lparr>pending_data_valid := False\<rparr>)
              (be16 (pending_data s) b)"
          using data writing True pd by (simp_all add: spi_byte_def Let_def m w pv)
        then show ?thesis
          using process_pixel_live [OF le] by simp
      next
        case False
        have "spi_byte s b = s\<lparr>pending_data := b, pending_data_valid := True\<rparr>"
          and "spi_byte t b = t\<lparr>pending_data := b, pending_data_valid := True\<rparr>"
          using data writing False by (simp_all add: spi_byte_def Let_def m w pv)
        then show ?thesis
          using le
          by (simp add: live_equal_def core_equal_def command_equal_def pending_equal_def)
      qed
    qed
  qed
qed

lemma spi_bytes_live:
  "live_equal s t \<Longrightarrow> live_equal (spi_bytes s bs) (spi_bytes t bs)"
  by (induction bs arbitrary: s t) (simp_all add: spi_byte_live)

lemma spi_done_chip_equal:
  "chip_equal c d \<Longrightarrow> chip_equal (gc9a01_spi_done cs c bs) (gc9a01_spi_done cs d bs)"
  by (simp add: chip_equal_def gc9a01_spi_done_def spi_bytes_live)

lemma pin_change_chip_equal:
  assumes "chip_equal c d"
  shows "chip_equal (gc9a01_pin_change cs c p v) (gc9a01_pin_change cs d p v)"
proof -
  from assms have core: "core_equal (fst c) (fst d)" and cmd: "command_equal (fst c) (fst d)"
    and pend: "pending_equal (fst c) (fst d)" and armed: "snd c = snd d"
    by (simp_all add: chip_equal_def live_equal_def)
  show ?thesis
  proof (cases p)
    case CS
    then show ?thesis
      using core cmd pend
      by (cases v) (simp_all add: gc9a01_pin_change_def chip_equal_def live_equal_def
          core_equal_def command_equal_def pending_equal_def)
  next
    case DC
    then show ?thesis
      using core cmd pend
      by (simp add: gc9a01_pin_change_def chip_equal_def live_equal_def
          core_equal_def command_equal_def pending_equal_def)
  next
    case RST
    then show ?thesis
      using core cmd pend armed
      by (cases v) (simp_all add: gc9a01_pin_change_def chip_equal_def live_equal_def
          core_equal_def command_equal_def pending_equal_def reset_display_def)
  next
    case SCL
    then show ?thesis using assms by (simp add: gc9a01_pin_change_def)
  next
    case SDA
    then show ?thesis using assms by (simp add: gc9a01_pin_change_def)
  qed
qed

lemma apply_event_chip_equal:
  "chip_equal c d \<Longrightarrow> chip_equal (apply_event c e) (apply_event d e)"
  by (cases e) (simp_all add: spi_done_chip_equal pin_change_chip_equal)

lemma run_events_chip_equal:
  "chip_equal c d \<Longrightarrow> chip_equal (run_events c es) (run_events d es)"
  by (induction es arbitrary: c d) (simp_all add: apply_event_chip_equal)

section \<open>Mode line\<close>

lemma partial_caset_chip_fields:
  "mode (fst partial_caset_chip) = GC9A01_MODE_COMMAND"
  "is_receiving_command (fst partial_caset_chip)"
  "current_command (fst partial_caset_chip) = GC9A01_CASET"
  "expected_args (fst partial_caset_chip) = 4"
  "received_args (fst partial_caset_chip) = 2"
  "col_start (fst partial_caset_chip) = 0"
  "col_end (fst partial_caset_chip) = 239"
  by (simp_all add: partial_caset_chip_def run_simps)

lemma half_sample_chip_fields:
  "mode (fst half_sample_chip) = GC9A01_MODE_DATA"
  "ram_write (fst half_sample_chip)"
  "pending_data_valid (fst half_sample_chip)"
  "pending_data (fst half_sample_chip) = 0x12"
  "current_col (fst half_sample_chip) = 0"
  by (simp_all add: half_sample_chip_def run_simps)

text \<open>
  A command with two of its four arguments received survives two transitions of
  the mode line: the next two bytes in command mode complete it and it is applied
  (the column window becomes 10 to 20). A pending high byte survives them too: the
  next byte in data mode is paired with it and the sample is written (the cursor
  moves on).
\<close>

theorem mode_change_keeps_partial:
  "is_receiving_command (fst partial_caset_chip)
   \<and> received_args (fst partial_caset_chip) < expected_args (fst partial_caset_chip)
   \<and> col_start (fst (run_events partial_caset_chip
        [PinChange LOW DC HIGH, PinChange LOW DC LOW, SpiDone LOW [0x00, 0x14]])) = 10
   \<and> col_end (fst (run_events partial_caset_chip
        [PinChange LOW DC HIGH, PinChange LOW DC LOW, SpiDone LOW [0x00, 0x14]])) = 20
   \<and> pending_data_valid (fst half_sample_chip)
   \<and> current_col (fst (run_events half_sample_chip
        [PinChange LOW DC LOW, PinChange LOW DC HIGH, SpiDone LOW [0x34]])) = 1"
  by (simp add: partial_caset_chip_def half_sample_chip_def run_simps)

text \<open>
  C7 (amended). A transition of the mode line sets \<open>mode\<close> (command when low, data
  when high), stops the transport and arms it again when select is low, and changes
  nothing else: \<open>is_receiving_command\<close>, \<open>received_args\<close>, the argument buffer,
  \<open>pending_data\<close> and \<open>pending_data_valid\<close> are kept, so a command or sample in flight
  is resumed by the bytes delivered next in the matching mode.
\<close>

theorem mode_line_sets_mode_only:
  "gc9a01_pin_change cs (st, armed) DC v =
     (st\<lparr>mode := (if v = LOW then GC9A01_MODE_COMMAND else GC9A01_MODE_DATA)\<rparr>, cs = LOW)"
  by (simp add: gc9a01_pin_change_def)


section \<open>Pending sample byte\<close>

text \<open>
  With the high byte of a sample pending, the software reset opcode and a falling
  edge of the reset line both leave \<open>pending_data_valid\<close> set; so does the reset
  opcode arriving through the stream.
\<close>

theorem reset_keeps_pending_flag:
  "pending_data_valid (fst half_sample_chip)
   \<and> pending_data_valid (process_command (fst half_sample_chip) GC9A01_SWRESET (\<lambda>_. 0) 0)
   \<and> pending_data_valid (fst (gc9a01_pin_change LOW half_sample_chip RST LOW))
   \<and> pending_data_valid (fst (run_events half_sample_chip
         [PinChange LOW DC LOW, SpiDone LOW [0x01]]))"
  by (simp add: half_sample_chip_def run_simps reset_display_def)

lemma live_equal_refl: "live_equal s s"
  by (simp add: live_equal_def core_equal_def command_equal_def pending_equal_def)

lemma live_equal_clear_pending:
  "\<not> ram_write s \<Longrightarrow> live_equal s (s\<lparr>pending_data_valid := False\<rparr>)"
  by (simp add: live_equal_def core_equal_def command_equal_def pending_equal_def)

lemma reset_display_ram_write: "\<not> ram_write (reset_display s)"
  by (simp add: reset_display_def)

text \<open>
  C8 (amended). Select-line deactivation clears \<open>pending_data_valid\<close>. The software
  reset opcode and a falling edge of the reset line leave the flag as it was, but
  they clear \<open>ram_write\<close>, and only the memory-write opcode sets \<open>ram_write\<close> again,
  clearing the flag as it does: after any of the three events, for every later
  sequence of deliveries and pin changes, the chip behaves as if the flag had been
  cleared (same surface, window, cursor and flags, and the same pending byte
  whenever \<open>ram_write\<close> holds), so no high byte received before the event is paired
  with a later byte.
\<close>

theorem stale_pending_never_pairs:
  "\<not> pending_data_valid (fst (gc9a01_pin_change cs (st, armed) CS HIGH))
   \<and> (c = (process_command st GC9A01_SWRESET args len, armed)
        \<or> c = gc9a01_pin_change cs (st, armed) RST LOW \<longrightarrow>
      \<not> ram_write (fst c)
      \<and> (\<forall>es. chip_equal (run_events c es)
                (run_events ((fst c)\<lparr>pending_data_valid := False\<rparr>, snd c) es)))"
proof -
  have a: "\<not> pending_data_valid (fst (gc9a01_pin_change cs (st, armed) CS HIGH))"
    by (simp add: gc9a01_pin_change_def)
  have b: "\<not> ram_write (fst c)
      \<and> (\<forall>es. chip_equal (run_events c es)
                (run_events ((fst c)\<lparr>pending_data_valid := False\<rparr>, snd c) es))"
    if "c = (process_command st GC9A01_SWRESET args len, armed)
        \<or> c = gc9a01_pin_change cs (st, armed) RST LOW"
  proof -
    have "fst c = reset_display st"
      using that by (auto simp add: process_command_def gc9a01_pin_change_def)
    then have nw: "\<not> ram_write (fst c)"
      by (simp add: reset_display_ram_write)
    then have "chip_equal c ((fst c)\<lparr>pending_data_valid := False\<rparr>, snd c)"
      by (simp add: chip_equal_def live_equal_clear_pending)
    then have "chip_equal (run_events c es)
        (run_events ((fst c)\<lparr>pending_data_valid := False\<rparr>, snd c) es)" for es
      by (rule run_events_chip_equal)
    then show ?thesis using nw by blast
  qed
  show ?thesis using a b by blast
qed

theorem stale_pending_never_pairs_witness:
  "\<not> pending_data_valid (fst (gc9a01_pin_change LOW half_sample_chip CS HIGH))
   \<and> \<not> ram_write (fst (gc9a01_pin_change LOW half_sample_chip RST LOW))
   \<and> chip_equal
       (run_events (gc9a01_pin_change LOW half_sample_chip RST LOW) [SpiDone LOW [0x34]])
       (run_events ((fst (gc9a01_pin_change LOW half_sample_chip RST LOW))
                      \<lparr>pending_data_valid := False\<rparr>,
                    snd (gc9a01_pin_change LOW half_sample_chip RST LOW))
          [SpiDone LOW [0x34]])"
  using stale_pending_never_pairs [of LOW "fst half_sample_chip" "snd half_sample_chip"
      "gc9a01_pin_change LOW half_sample_chip RST LOW" "\<lambda>_. 0" 0]
  by (simp del: run_events.simps)

section \<open>Unknown opcodes\<close>

lemma overwritten_scratch:
  assumes "mode st = GC9A01_MODE_COMMAND" and "\<not> is_receiving_command st"
  shows "spi_byte (st\<lparr>current_command := x, is_receiving_command := False,
            received_args := y, expected_args := z\<rparr>) b = spi_byte st b"
  using assms by (simp add: spi_byte_def Let_def)

text \<open>
  C9. An opcode byte outside the command table counts as a command without
  arguments; applying it changes no field of the state and nothing on the surface.
  Received in command mode with no command in progress, it leaves the parser idle
  and only its own bookkeeping (\<open>current_command\<close>, \<open>received_args\<close>,
  \<open>expected_args\<close>) records it. The bytes that follow it in the same delivery end
  in exactly the state they reach without it, and every later sequence of
  deliveries and pin changes behaves as if it had not been sent.
\<close>

theorem unknown_opcode_is_noop:
  assumes "b \<notin> {0x01, 0x11, 0x29, 0x28, 0x2A, 0x2B, 0x2C, 0x36, 0x3A, 0x20, 0x21}"
  shows "get_expected_arg_count b = 0
       \<and> process_command st b args len = st
       \<and> (mode st = GC9A01_MODE_COMMAND \<and> \<not> is_receiving_command st \<longrightarrow>
            spi_byte st b = st\<lparr>current_command := b, is_receiving_command := False,
                               received_args := 0, expected_args := 0\<rparr>
          \<and> (\<forall>bs. bs \<noteq> [] \<longrightarrow>
                 gc9a01_spi_done cs (st, armed) (b # bs) = gc9a01_spi_done cs (st, armed) bs)
          \<and> (\<forall>es. chip_equal (run_events (spi_byte st b, armed) es)
                                (run_events (st, armed) es)))"
proof -
  have g: "get_expected_arg_count b = 0"
    using assms by (simp add: get_expected_arg_count_def)
  have p: "process_command s b a l = s" for s a l
    using assms by (simp add: process_command_def)
  have rest: "spi_byte st b = st\<lparr>current_command := b, is_receiving_command := False,
                               received_args := 0, expected_args := 0\<rparr>
          \<and> (\<forall>bs. bs \<noteq> [] \<longrightarrow>
                 gc9a01_spi_done cs (st, armed) (b # bs) = gc9a01_spi_done cs (st, armed) bs)
          \<and> (\<forall>es. chip_equal (run_events (spi_byte st b, armed) es)
                                (run_events (st, armed) es))"
    if idle: "mode st = GC9A01_MODE_COMMAND \<and> \<not> is_receiving_command st"
  proof -
    have sb: "spi_byte st b = st\<lparr>current_command := b, is_receiving_command := False,
                               received_args := 0, expected_args := 0\<rparr>"
      using idle by (simp add: spi_byte_def Let_def g p)
    have "spi_bytes (spi_byte st b) bs = spi_bytes st bs" if "bs \<noteq> []" for bs
    proof (cases bs)
      case Nil
      then show ?thesis using that by simp
    next
      case (Cons b' bs')
      then show ?thesis
        using idle by (simp add: sb overwritten_scratch)
    qed
    then have same: "\<forall>bs. bs \<noteq> [] \<longrightarrow>
        gc9a01_spi_done cs (st, armed) (b # bs) = gc9a01_spi_done cs (st, armed) bs"
      by (simp add: gc9a01_spi_done_def)
    have "live_equal (spi_byte st b) st"
      using idle unfolding sb
      by (simp add: live_equal_def core_equal_def command_equal_def pending_equal_def)
    then have "chip_equal (spi_byte st b, armed) (st, armed)"
      by (simp add: chip_equal_def)
    then have "chip_equal (run_events (spi_byte st b, armed) es) (run_events (st, armed) es)"
      for es
      by (rule run_events_chip_equal)
    then show ?thesis using sb same by blast
  qed
  show ?thesis using g p [of st args len] rest by blast
qed

theorem unknown_opcode_is_noop_witness:
  "get_expected_arg_count 0xB1 = 0
   \<and> process_command painted_state 0xB1 (\<lambda>_. 0) 0 = painted_state
   \<and> gc9a01_spi_done LOW (idle_state, True) [0xB1, 0x29]
       = gc9a01_spi_done LOW (idle_state, True) [0x29]
   \<and> chip_equal (run_events (spi_byte idle_state 0xB1, True) [SpiDone LOW [0x2C]])
       (run_events (idle_state, True) [SpiDone LOW [0x2C]])"
proof -
  have h: "(0xB1 :: u8) \<notin> {0x01, 0x11, 0x29, 0x28, 0x2A, 0x2B, 0x2C, 0x36, 0x3A, 0x20, 0x21}"
    by simp
  have i: "mode idle_state = GC9A01_MODE_COMMAND \<and> \<not> is_receiving_command idle_state"
    by (simp add: idle_state_def)
  have n: "[0x29 :: u8] \<noteq> []" by simp
  show ?thesis
    using unknown_opcode_is_noop [OF h, of painted_state "\<lambda>_. 0" 0 LOW True]
      unknown_opcode_is_noop [OF h, of idle_state "\<lambda>_. 0" 0 LOW True] i n
    by blast
qed


section \<open>Select line\<close>

text \<open>
  C10. From a state in which a four-argument command has received only some of its
  arguments: deactivating the select line clears \<open>ram_write\<close> and the assembly of the
  command and of any sample; reactivating it clears the assembly flags again and
  keeps window, cursor and surface. A command without arguments sent next is the
  only command applied: up to parser fields that are dead while no command is
  being received, the resulting state is that command applied to the state with
  the partial command forgotten (\<open>forget_assembly\<close>), and every later sequence of
  deliveries and pin changes behaves as from that forgotten state, so the abandoned
  command is never applied.
\<close>

theorem select_line_abandons_partial:
  fixes st :: gc9a01_state and c :: u8 and cs1 cs2 cs3 :: level and armed :: bool
  assumes "mode st = GC9A01_MODE_COMMAND" and "is_receiving_command st"
    and "expected_args st = 4" and "received_args st < 4"
    and "get_expected_arg_count c = 0"
  defines "c1 \<equiv> gc9a01_pin_change cs1 (st, armed) CS HIGH"
  defines "c2 \<equiv> gc9a01_pin_change cs2 c1 CS LOW"
  defines "c3 \<equiv> gc9a01_spi_done cs3 c2 [c]"
  shows "\<not> ram_write (fst c1) \<and> \<not> is_receiving_command (fst c1)
       \<and> \<not> pending_data_valid (fst c1)
       \<and> \<not> is_receiving_command (fst c2) \<and> \<not> pending_data_valid (fst c2)
       \<and> col_start (fst c2) = col_start st \<and> col_end (fst c2) = col_end st
       \<and> row_start (fst c2) = row_start st \<and> row_end (fst c2) = row_end st
       \<and> current_col (fst c2) = current_col st \<and> current_row (fst c2) = current_row st
       \<and> framebuffer (fst c2) = framebuffer st
       \<and> live_equal (fst c3) (process_command (forget_assembly st) c (\<lambda>_. 0) 0)
       \<and> (\<forall>es. chip_equal (run_events c2 es) (run_events (forget_assembly st, True) es))"
proof -
  have s1: "fst c1 = st\<lparr>ram_write := False, is_receiving_command := False,
      pending_data_valid := False\<rparr>"
    by (simp add: c1_def gc9a01_pin_change_def)
  have s2: "c2 = (st\<lparr>ram_write := False, is_receiving_command := False,
      pending_data_valid := False\<rparr>, True)"
    by (simp add: c2_def c1_def gc9a01_pin_change_def)
  have fields: "\<not> ram_write (fst c1) \<and> \<not> is_receiving_command (fst c1)
       \<and> \<not> pending_data_valid (fst c1)
       \<and> \<not> is_receiving_command (fst c2) \<and> \<not> pending_data_valid (fst c2)
       \<and> col_start (fst c2) = col_start st \<and> col_end (fst c2) = col_end st
       \<and> row_start (fst c2) = row_start st \<and> row_end (fst c2) = row_end st
       \<and> current_col (fst c2) = current_col st \<and> current_row (fst c2) = current_row st
       \<and> framebuffer (fst c2) = framebuffer st"
    by (simp add: s1 s2)
  have core: "core_equal (fst c2) (forget_assembly st)"
    and pend: "pending_equal (fst c2) (forget_assembly st)"
    and cmd: "command_equal (fst c2) (forget_assembly st)"
    by (simp_all add: s2 forget_assembly_def core_equal_def pending_equal_def command_equal_def)
  let ?s = "(fst c2)\<lparr>current_command := c, is_receiving_command := True, received_args := 0,
      expected_args := get_expected_arg_count c\<rparr>"
  let ?t = "(forget_assembly st)\<lparr>is_receiving_command := True\<rparr>"
  have "core_equal ?s ?t" and "pending_equal ?s ?t"
    using core pend by (simp_all add: core_equal_def pending_equal_def)
  then have "live_equal ((process_command ?s c (\<lambda>_. 0) 0)\<lparr>is_receiving_command := False\<rparr>)
      ((process_command ?t c (\<lambda>_. 0) 0)\<lparr>is_receiving_command := False\<rparr>)"
    by (rule process_command_live) simp
  moreover have "fst c3 = (process_command ?s c (\<lambda>_. 0) 0)\<lparr>is_receiving_command := False\<rparr>"
    using assms(1,5) by (simp add: c3_def s2 gc9a01_spi_done_def spi_byte_def Let_def)
  moreover have "(process_command ?t c (\<lambda>_. 0) 0)\<lparr>is_receiving_command := False\<rparr>
      = process_command (forget_assembly st) c (\<lambda>_. 0) 0"
    by (simp add: process_command_def reset_display_def forget_assembly_def)
  ultimately have fresh: "live_equal (fst c3) (process_command (forget_assembly st) c (\<lambda>_. 0) 0)"
    by simp
  have "chip_equal c2 (forget_assembly st, True)"
    using core pend cmd by (simp add: chip_equal_def live_equal_def s2)
  then have "chip_equal (run_events c2 es) (run_events (forget_assembly st, True) es)" for es
    by (rule run_events_chip_equal)
  then show ?thesis
    using fields fresh by blast
qed

theorem select_line_abandons_partial_witness:
  "\<not> ram_write (fst (gc9a01_pin_change HIGH partial_caset_chip CS HIGH))
   \<and> col_end (fst (gc9a01_pin_change LOW
         (gc9a01_pin_change HIGH partial_caset_chip CS HIGH) CS LOW)) = 239
   \<and> live_equal
       (fst (gc9a01_spi_done LOW
          (gc9a01_pin_change LOW (gc9a01_pin_change HIGH partial_caset_chip CS HIGH) CS LOW)
          [0x29]))
       (process_command (forget_assembly (fst partial_caset_chip)) 0x29 (\<lambda>_. 0) 0)"
proof -
  have h: "mode (fst partial_caset_chip) = GC9A01_MODE_COMMAND"
    "is_receiving_command (fst partial_caset_chip)"
    "expected_args (fst partial_caset_chip) = 4"
    "received_args (fst partial_caset_chip) < 4"
    by (simp_all add: partial_caset_chip_fields)
  have z: "get_expected_arg_count 0x29 = 0"
    by (simp add: get_expected_arg_count_def)
  show ?thesis
    using select_line_abandons_partial [OF h z, where ?cs1.0 = HIGH and ?cs2.0 = LOW
        and ?cs3.0 = LOW and armed = "snd partial_caset_chip"]
    by (simp add: partial_caset_chip_fields)
qed

section \<open>Parser invariant\<close>

text \<open>
  The array \<^verbatim>\<open>command_args[16]\<close> is written at index \<open>received_args\<close> while a command
  is being received. From the initial state that index stays below 4, whatever the
  events: the model's unbounded argument store is never written outside the array.
\<close>

lemma get_expected_arg_count_le: "get_expected_arg_count b \<le> 4"
  by (simp add: get_expected_arg_count_def word_le_nat_alt)

lemma process_command_parser_fields:
  "is_receiving_command (process_command st c a l) = is_receiving_command st"
  "received_args (process_command st c a l) = received_args st"
  "expected_args (process_command st c a l) = expected_args st"
  by (simp_all add: process_command_def reset_display_def)

lemma spi_byte_parser_ok:
  assumes "parser_ok st"
  shows "parser_ok (spi_byte st b)"
proof (cases "mode st = GC9A01_MODE_COMMAND")
  case command: True
  show ?thesis
  proof (cases "is_receiving_command st")
    case False
    have "0 < get_expected_arg_count b" if "get_expected_arg_count b \<noteq> 0"
      using that by (simp add: word_gt_0)
    then show ?thesis
      using command False get_expected_arg_count_le [of b]
      by (simp add: spi_byte_def Let_def parser_ok_def process_command_parser_fields)
  next
    case True
    then have "expected_args st \<le> 4"
      using assms by (simp add: parser_ok_def)
    then show ?thesis
      using command True
      by (auto simp add: spi_byte_def Let_def parser_ok_def process_command_parser_fields
          not_le)
  qed
next
  case False
  then show ?thesis
    using assms by (simp add: spi_byte_def Let_def parser_ok_def process_pixel_scratch)
qed

lemma spi_bytes_parser_ok: "parser_ok st \<Longrightarrow> parser_ok (spi_bytes st bs)"
  by (induction bs arbitrary: st) (simp_all add: spi_byte_parser_ok)

lemma apply_event_parser_ok:
  assumes "parser_ok (fst c)"
  shows "parser_ok (fst (apply_event c e))"
proof (cases e)
  case (SpiDone cs buffer)
  then show ?thesis
    using assms by (simp add: gc9a01_spi_done_def spi_bytes_parser_ok)
next
  case (PinChange cs p v)
  then show ?thesis
    using assms
    by (cases p; cases v)
      (simp_all add: gc9a01_pin_change_def parser_ok_def reset_display_def)
qed

lemma run_events_parser_ok:
  "parser_ok (fst c) \<Longrightarrow> parser_ok (fst (run_events c es))"
  by (induction es arbitrary: c) (simp_all add: apply_event_parser_ok)

lemma idle_state_parser_ok: "parser_ok idle_state"
  by (simp add: parser_ok_def idle_state_def)

lemma argument_index_in_array:
  assumes "is_receiving_command (fst (run_events (idle_state, armed) es))"
  shows "unat (received_args (fst (run_events (idle_state, armed) es))) < 4"
proof -
  let ?st = "fst (run_events (idle_state, armed) es)"
  have "parser_ok ?st"
    using run_events_parser_ok [of "(idle_state, armed)" es] by (simp add: idle_state_parser_ok)
  then have "received_args ?st < expected_args ?st" and "expected_args ?st \<le> 4"
    using assms by (simp_all add: parser_ok_def)
  then have "unat (received_args ?st) < unat (expected_args ?st)"
    and "unat (expected_args ?st) \<le> 4"
    by (simp_all add: word_less_nat_alt word_le_nat_alt)
  then show ?thesis by simp
qed

end
